theory Spec2Isabelle
  imports Complex_Main "HOL-Library.Sublist"
begin

section \<open>Shared constants and Python string helpers\<close>

text \<open>
  \<^verbatim>\<open>ANCHOR_PREFIXES\<close> of \<^verbatim>\<open>rendered_reference.py\<close> and \<^verbatim>\<open>reference_normalization.py\<close>
  (the same list in both modules). Python's \<^verbatim>\<open>s.startswith(p)\<close> is \<^term>\<open>prefix p s\<close>.
\<close>

definition ANCHOR_PREFIXES :: "string list" where
  "ANCHOR_PREFIXES = [''var_'', ''fun_'', ''const_'', ''type_'', ''kw_'', ''op_'', ''an_'']"

definition matches_any_prefix :: "string \<Rightarrow> bool" where
  \<comment> \<open>\<^verbatim>\<open>any(anchor_id.startswith(prefix) for prefix in ANCHOR_PREFIXES)\<close>\<close>
  "matches_any_prefix anchor_id = list_ex (\<lambda>p. prefix p anchor_id) ANCHOR_PREFIXES"

definition first_matching_prefix :: "string \<Rightarrow> string option" where
  \<comment> \<open>the prefix at which \<^verbatim>\<open>for prefix in ANCHOR_PREFIXES: if anchor_id.startswith(prefix)\<close> stops\<close>
  "first_matching_prefix anchor_id = find (\<lambda>p. prefix p anchor_id) ANCHOR_PREFIXES"

section \<open>Drift detector\<close>

text \<open>
  The manifest of one render attempt, with the keys \<^verbatim>\<open>render_and_manifest\<close> writes.
  Dictionaries compared with \<^verbatim>\<open>!=\<close> (the viewport) are maps, whose equality is Python's
  dict equality; \<^verbatim>\<open>anchor_counts_by_prefix\<close> is iterated with \<^verbatim>\<open>.items()\<close>, so it is an
  association list in insertion order.
\<close>

record manifest =
  manifest_version :: string
  m_canonical_url :: string
  m_doc_type :: string
  m_pine_version :: string
  m_run_id :: string
  capture_method :: string
  capture_timestamp :: string
  render_engine :: string
  m_browser_name :: string
  m_browser_version :: string
  m_user_agent :: string
  m_viewport :: "string \<rightharpoonup> int"
  m_locale :: string
  m_timezone :: string
  m_render_wait_strategy :: string
  m_max_wait_seconds :: int
  m_post_render_delay_ms :: int
  anchor_count_total :: int
  m_anchor_counts_by_prefix :: "(string \<times> int) list"
  artifact_path :: string
  artifact_size_bytes :: int
  artifact_checksum_sha256 :: string
  m_status :: string
  m_notes :: string

definition drift_severity :: "int \<Rightarrow> bool \<Rightarrow> string" where
  "drift_severity anchor_count_delta env_delta =
     (if anchor_count_delta = 0 \<and> \<not> env_delta then ''none''
      else if anchor_count_delta \<noteq> 0 then
        (if \<bar>anchor_count_delta\<bar> \<ge> 10 then ''high'' else ''medium'')
      else ''low'')"

definition drift_recommended_action :: "string \<Rightarrow> string" where
  "drift_recommended_action severity =
     (if severity = ''none'' then ''ignore''
      else if severity = ''low'' then ''manual_review''
      else if severity = ''medium'' then ''resegment''
      else ''block_pipeline'')"

record drift_report =
  baseline_run_id :: string
  candidate_run_id :: string
  r_canonical_url :: string
  r_pine_version :: string
  env_browser_version :: "string \<times> string"
  env_user_agent :: "string \<times> string"
  env_viewport :: "(string \<rightharpoonup> int) \<times> (string \<rightharpoonup> int)"
  env_locale :: "string \<times> string"
  env_timezone :: "string \<times> string"
  artifact_checksum_changed :: bool
  artifact_size_delta :: int
  anchor_count_delta :: int
  anchor_prefix_deltas :: "(string \<times> int) list"
  r_drift_severity :: string
  recommended_action :: string

definition env_changed :: "manifest \<Rightarrow> manifest \<Rightarrow> bool" where
  \<comment> \<open>\<^verbatim>\<open>any(value[0] != value[1] for value in env_delta.values())\<close>\<close>
  "env_changed baseline candidate \<longleftrightarrow>
     m_browser_version baseline \<noteq> m_browser_version candidate
   \<or> m_user_agent baseline \<noteq> m_user_agent candidate
   \<or> m_viewport baseline \<noteq> m_viewport candidate
   \<or> m_locale baseline \<noteq> m_locale candidate
   \<or> m_timezone baseline \<noteq> m_timezone candidate"

definition dict_get_or :: "(string \<times> int) list \<Rightarrow> string \<Rightarrow> int \<Rightarrow> int" where
  \<comment> \<open>\<^verbatim>\<open>d.get(key, default)\<close>\<close>
  "dict_get_or d k dflt = (case map_of d k of None \<Rightarrow> dflt | Some v \<Rightarrow> v)"

definition generate_drift_report :: "manifest \<Rightarrow> manifest \<Rightarrow> drift_report" where
  "generate_drift_report baseline candidate =
     (let anchor_delta = anchor_count_total candidate - anchor_count_total baseline;
          prefix_delta = map (\<lambda>(p, count).
              (p, dict_get_or (m_anchor_counts_by_prefix candidate) p 0 - count))
            (m_anchor_counts_by_prefix baseline);
          severity = drift_severity anchor_delta (env_changed baseline candidate)
      in \<lparr> baseline_run_id = m_run_id baseline,
           candidate_run_id = m_run_id candidate,
           r_canonical_url = m_canonical_url candidate,
           r_pine_version = m_pine_version candidate,
           env_browser_version = (m_browser_version baseline, m_browser_version candidate),
           env_user_agent = (m_user_agent baseline, m_user_agent candidate),
           env_viewport = (m_viewport baseline, m_viewport candidate),
           env_locale = (m_locale baseline, m_locale candidate),
           env_timezone = (m_timezone baseline, m_timezone candidate),
           artifact_checksum_changed =
             (artifact_checksum_sha256 baseline \<noteq> artifact_checksum_sha256 candidate),
           artifact_size_delta = artifact_size_bytes candidate - artifact_size_bytes baseline,
           anchor_count_delta = anchor_delta,
           anchor_prefix_deltas = prefix_delta,
           r_drift_severity = severity,
           recommended_action = drift_recommended_action severity \<rparr>)"

text \<open>A manifest as \<^verbatim>\<open>render_and_manifest\<close> fills it in, used by the concrete scenarios.\<close>

definition sample_manifest :: "string \<Rightarrow> int \<Rightarrow> string \<Rightarrow> manifest" where
  "sample_manifest run n agent =
     \<lparr> manifest_version = ''1.0'',
       m_canonical_url = ''https://www.tradingview.com/pine-script-reference/v6/'',
       m_doc_type = ''reference'', m_pine_version = ''v6'', m_run_id = run,
       capture_method = ''rendered_playwright'', capture_timestamp = ''2026-01-09T13:56:01Z'',
       render_engine = ''playwright'', m_browser_name = ''chromium'',
       m_browser_version = ''120.0'', m_user_agent = agent,
       m_viewport = [''width'' \<mapsto> 1400, ''height'' \<mapsto> 900],
       m_locale = ''en-US'', m_timezone = ''UTC'',
       m_render_wait_strategy = ''anchor_stability'', m_max_wait_seconds = 120,
       m_post_render_delay_ms = 1000, anchor_count_total = n,
       m_anchor_counts_by_prefix = [(''var_'', 0), (''fun_'', n)],
       artifact_path = ''raw/rendered/v6/reference/r/reference.html'',
       artifact_size_bytes = 1000, artifact_checksum_sha256 = ''abc'',
       m_status = ''complete'', m_notes = '''' \<rparr>"

section \<open>Rendering stabilizer\<close>

record RenderConfig =
  viewport :: "string \<rightharpoonup> int"
  cfg_locale :: string
  timezone :: string
  user_agent :: string
  render_wait_strategy :: string
  max_wait_seconds :: int
  post_render_delay_ms :: int
  anchor_min_threshold :: int
  stabilize_checks :: int
  stabilize_interval_seconds :: real
  max_scrolls :: int

record RenderResult =
  html :: string
  anchor_ids :: "string list"
  anchor_counts_by_prefix :: "(string \<times> int) list"
  browser_name :: string
  browser_version :: string
  status :: string
  res_notes :: string

text \<open>
  \<^verbatim>\<open>anchor_prefix_counts\<close>: the dictionary starts with every prefix at 0; each anchor id
  increments the entry of the first prefix it starts with (\<^verbatim>\<open>break\<close>), and an id that
  starts with none changes nothing.
\<close>

definition increment :: "(string \<times> int) list \<Rightarrow> string \<Rightarrow> (string \<times> int) list" where
  \<comment> \<open>\<^verbatim>\<open>counts[prefix] += 1\<close>\<close>
  "increment counts k = map (\<lambda>(p, c). if p = k then (p, c + 1) else (p, c)) counts"

fun count_anchor_ids :: "(string \<times> int) list \<Rightarrow> string list \<Rightarrow> (string \<times> int) list" where
  "count_anchor_ids counts [] = counts"
| "count_anchor_ids counts (anchor_id # rest) =
     count_anchor_ids
       (case first_matching_prefix anchor_id of
          None \<Rightarrow> counts
        | Some p \<Rightarrow> increment counts p) rest"

definition anchor_prefix_counts :: "string list \<Rightarrow> (string \<times> int) list" where
  "anchor_prefix_counts ids = count_anchor_ids (map (\<lambda>p. (p, 0)) ANCHOR_PREFIXES) ids"

text \<open>
  The browser is the environment. One poll of the page is what \<^verbatim>\<open>querySelectorAll('[id]')\<close>
  returned (the id attribute of every such node, in document order), the exception the
  scrolling \<^verbatim>\<open>page.evaluate\<close> of that iteration raises if it is called (\<open>None\<close> when it
  returns), and the value of \<^verbatim>\<open>time.time() - start_time\<close> read after the sleep of that
  iteration; the first \<^verbatim>\<open>page.evaluate\<close> of an iteration may also raise. A session is
  the exception raised before the loop, if any (launching the browser, opening the
  context and the page, \<^verbatim>\<open>page.goto\<close>), the finite script of polls the page answers with,
  what \<^verbatim>\<open>page.content()\<close> and \<^verbatim>\<open>browser.version()\<close> return or raise, and the exception
  raised by closing the context and the browser and leaving the \<^verbatim>\<open>with\<close> block, if any.
  \<^verbatim>\<open>time.sleep\<close> raises \<^verbatim>\<open>ValueError\<close> on a negative duration. A loop that is still running
  when the script ends has no result (\<open>None\<close>).
\<close>

datatype poll = Poll "string list" "string option" real | PollRaises string

record session =
  goto_error :: "string option"
  polls :: "poll list"
  page_content :: "string + string"
  session_browser_version :: "string + string"
  close_error :: "string option"

definition collect_anchor_ids :: "string list \<Rightarrow> string list" where
  \<comment> \<open>the JavaScript passed to \<^verbatim>\<open>page.evaluate\<close>: skip empty ids and \<^verbatim>\<open>tv-content\<close>, keep an
      id that starts with one of the prefixes\<close>
  "collect_anchor_ids ids =
     filter (\<lambda>i. i \<noteq> [] \<and> i \<noteq> ''tv-content'' \<and> matches_any_prefix i) ids"

definition stable_enough :: "RenderConfig \<Rightarrow> int \<Rightarrow> int \<Rightarrow> bool" where
  \<comment> \<open>\<^verbatim>\<open>current_count >= config.anchor_min_threshold and stable_count >= config.stabilize_checks\<close>\<close>
  "stable_enough cfg current_count stable_count \<longleftrightarrow>
     current_count \<ge> anchor_min_threshold cfg \<and> stable_count \<ge> stabilize_checks cfg"

fun stabilize ::
  "RenderConfig \<Rightarrow> poll list \<Rightarrow> int \<Rightarrow> int \<Rightarrow> int
     \<Rightarrow> (string + string list \<times> int \<times> string) option" where
  "stabilize cfg [] stable_count previous_count scrolls = None"
| "stabilize cfg (PollRaises e # ps) stable_count previous_count scrolls = Some (Inl e)"
| "stabilize cfg (Poll ids scroll t # ps) stable_count previous_count scrolls =
     (let anchor_ids = collect_anchor_ids ids;
          current_count = int (length anchor_ids);
          stable_count' = (if current_count = previous_count then stable_count + 1 else 0)
      in if stable_enough cfg current_count stable_count'
         then Some (Inr (anchor_ids, stable_count', []))
         else
           (case (if scrolls < max_scrolls cfg then scroll else None) of
              Some e \<Rightarrow> Some (Inl e)
            | None \<Rightarrow>
                let scrolls' = (if scrolls < max_scrolls cfg then scrolls + 1 else scrolls)
                in if stabilize_interval_seconds cfg < 0 then Some (Inl ''ValueError'')
                   else if t > of_int (max_wait_seconds cfg)
                   then Some (Inr (anchor_ids, stable_count', ''render_timeout''))
                   else stabilize cfg ps stable_count' current_count scrolls'))"

definition render_reference ::
  "string \<Rightarrow> RenderConfig \<Rightarrow> session \<Rightarrow> (string + RenderResult) option" where
  "render_reference url cfg sess =
     (case goto_error sess of
        Some e \<Rightarrow> Some (Inl e)
      | None \<Rightarrow>
         (case stabilize cfg (polls sess) 0 (- 1) 0 of
            None \<Rightarrow> None
          | Some (Inl e) \<Rightarrow> Some (Inl e)
          | Some (Inr (ids, stable_count, notes0)) \<Rightarrow>
              if post_render_delay_ms cfg < 0 then Some (Inl ''ValueError'')
              else
                (case page_content sess of
                   Inl e \<Rightarrow> Some (Inl e)
                 | Inr content \<Rightarrow>
                    (case session_browser_version sess of
                       Inl e \<Rightarrow> Some (Inl e)
                     | Inr version \<Rightarrow>
                        (case close_error sess of
                           Some e \<Rightarrow> Some (Inl e)
                         | None \<Rightarrow>
                            (let counts = anchor_prefix_counts ids;
                                 status0 = (if stable_enough cfg (int (length ids)) stable_count
                                            then ''complete'' else ''partial'');
                                 status1 = (if notes0 \<noteq> [] then ''failed'' else status0)
                             in Some (Inr \<lparr> html = content,
                                             anchor_ids = ids,
                                             anchor_counts_by_prefix = counts,
                                             browser_name = ''chromium'',
                                             browser_version = version,
                                             status = status1,
                                             res_notes = notes0 \<rparr>)))))))"

definition REFERENCE_URL :: string where
  "REFERENCE_URL = ''https://www.tradingview.com/pine-script-reference/v6/''"

definition default_config :: RenderConfig where
  \<comment> \<open>the \<^verbatim>\<open>RenderConfig\<close> built in \<^verbatim>\<open>render_and_manifest\<close>\<close>
  "default_config =
     \<lparr> viewport = [''width'' \<mapsto> 1400, ''height'' \<mapsto> 900],
       cfg_locale = ''en-US'', timezone = ''UTC'',
       user_agent = ''PineScript-Builder rendered acquisition/0.1'',
       render_wait_strategy = ''anchor_stability'',
       max_wait_seconds = 120, post_render_delay_ms = 1000,
       anchor_min_threshold = 200, stabilize_checks = 3,
       stabilize_interval_seconds = 1, max_scrolls = 5 \<rparr>"

text \<open>
  \<^verbatim>\<open>render_and_manifest\<close>, as far as the manifest it returns: \<open>sha\<close> stands for
  \<^verbatim>\<open>sha256_hex\<close> and \<open>now\<close> for the value of \<^verbatim>\<open>utc_now_iso()\<close>; strings stand for their
  UTF-8 bytes. The artifact path is \<^verbatim>\<open>reference_html_path(run_id)\<close> relative to the
  project root.
\<close>

definition render_and_manifest ::
  "(string \<Rightarrow> string) \<Rightarrow> string \<Rightarrow> session \<Rightarrow> string \<Rightarrow> (string + manifest) option" where
  "render_and_manifest sha now sess run_id =
     (case render_reference REFERENCE_URL default_config sess of
        None \<Rightarrow> None
      | Some (Inl e) \<Rightarrow> Some (Inl e)
      | Some (Inr result) \<Rightarrow>
          Some (Inr \<lparr> manifest_version = ''1.0'',
             m_canonical_url = REFERENCE_URL,
             m_doc_type = ''reference'',
             m_pine_version = ''v6'',
             m_run_id = run_id,
             capture_method = ''rendered_playwright'',
             capture_timestamp = now,
             render_engine = ''playwright'',
             m_browser_name = browser_name result,
             m_browser_version = browser_version result,
             m_user_agent = user_agent default_config,
             m_viewport = viewport default_config,
             m_locale = cfg_locale default_config,
             m_timezone = timezone default_config,
             m_render_wait_strategy = render_wait_strategy default_config,
             m_max_wait_seconds = max_wait_seconds default_config,
             m_post_render_delay_ms = post_render_delay_ms default_config,
             anchor_count_total = int (length (anchor_ids result)),
             m_anchor_counts_by_prefix = anchor_counts_by_prefix result,
             artifact_path = ''raw/rendered/v6/reference/'' @ run_id @ ''/reference.html'',
             artifact_size_bytes = int (length (html result)),
             artifact_checksum_sha256 = sha (html result),
             m_status = status result,
             m_notes = res_notes result \<rparr>))"

text \<open>
  A concrete session for the default configuration (threshold 200, three stable polls,
  120 seconds): the page shows one anchor, and the second poll is read 121 seconds after
  the start.
\<close>

definition timeout_session :: session where
  "timeout_session =
     \<lparr> goto_error = None,
       polls = [Poll [''tv-content'', ''fun_abs''] None 1,
                Poll [''tv-content'', ''fun_abs''] None 121],
       page_content = Inr ''<html></html>'',
       session_browser_version = Inr ''120.0'',
       close_error = None \<rparr>"

text \<open>
  The same page driven through a browser object whose \<^verbatim>\<open>version\<close> attribute is a string
  and not a method, so that the call \<^verbatim>\<open>browser.version()\<close> raises \<^verbatim>\<open>TypeError\<close>.
\<close>

definition version_property_session :: session where
  "version_property_session =
     \<lparr> goto_error = None,
       polls = [Poll [''tv-content'', ''fun_abs''] None 1,
                Poll [''tv-content'', ''fun_abs''] None 121],
       page_content = Inr ''<html></html>'',
       session_browser_version = Inl ''TypeError'',
       close_error = None \<rparr>"

definition timeout_result :: RenderResult where
  "timeout_result =
     \<lparr> html = ''<html></html>'',
       anchor_ids = [''fun_abs''],
       anchor_counts_by_prefix =
         [(''var_'', 0), (''fun_'', 1), (''const_'', 0), (''type_'', 0), (''kw_'', 0),
          (''op_'', 0), (''an_'', 0)],
       browser_name = ''chromium'',
       browser_version = ''120.0'',
       status = ''failed'',
       res_notes = ''render_timeout'' \<rparr>"

definition timeout_manifest :: manifest where
  \<comment> \<open>the manifest \<^verbatim>\<open>render_and_manifest\<close> builds from \<^term>\<open>timeout_result\<close>, with the identity
      standing for the hash\<close>
  "timeout_manifest =
     \<lparr> manifest_version = ''1.0'',
       m_canonical_url = ''https://www.tradingview.com/pine-script-reference/v6/'',
       m_doc_type = ''reference'', m_pine_version = ''v6'', m_run_id = ''20260109T135601Z'',
       capture_method = ''rendered_playwright'', capture_timestamp = ''2026-01-09T13:58:03Z'',
       render_engine = ''playwright'', m_browser_name = ''chromium'',
       m_browser_version = ''120.0'',
       m_user_agent = ''PineScript-Builder rendered acquisition/0.1'',
       m_viewport = [''width'' \<mapsto> 1400, ''height'' \<mapsto> 900],
       m_locale = ''en-US'', m_timezone = ''UTC'',
       m_render_wait_strategy = ''anchor_stability'', m_max_wait_seconds = 120,
       m_post_render_delay_ms = 1000, anchor_count_total = 1,
       m_anchor_counts_by_prefix =
         [(''var_'', 0), (''fun_'', 1), (''const_'', 0), (''type_'', 0), (''kw_'', 0),
          (''op_'', 0), (''an_'', 0)],
       artifact_path = ''raw/rendered/v6/reference/20260109T135601Z/reference.html'',
       artifact_size_bytes = 13, artifact_checksum_sha256 = ''<html></html>'',
       m_status = ''failed'', m_notes = ''render_timeout'' \<rparr>"

section \<open>Segmentation engine\<close>

text \<open>
  The HTML parser is a library; a parsed document is modelled by what the code reads from
  it. A tag with an id attribute carries \<^verbatim>\<open>tag.get("id")\<close>, \<^verbatim>\<open>str(tag)\<close>, its
  \<^verbatim>\<open>next_siblings\<close> (each with its id attribute, if it has one, and its \<^verbatim>\<open>str\<close>), the
  \<^verbatim>\<open>get_text(" ", strip=True)\<close> of its \<^verbatim>\<open>h1\<close>..\<^verbatim>\<open>h4\<close> descendants in order and of itself,
  and the \<^verbatim>\<open>get_text(strip=True)\<close> of each descendant whose class mentions \<^verbatim>\<open>type\<close>,
  \<^verbatim>\<open>kind\<close> or \<^verbatim>\<open>category\<close>. A document is the result of
  \<^verbatim>\<open>select_one("main#tv-content") or select_one("main.tv-content")\<close>: nothing, or the
  container, given by \<^verbatim>\<open>container.find_all(attrs={"id": True})\<close> in document order.
\<close>

record sibling_node =
  sib_id :: "string option"
  sib_str :: string

record tag =
  tag_id :: string
  tag_str :: string
  next_siblings :: "sibling_node list"
  heading_texts :: "string list"
  own_text :: string
  class_hint_texts :: "string list"

type_synonym document = "tag list option"

definition py_isspace :: "char \<Rightarrow> bool" where
  \<comment> \<open>the characters \<^verbatim>\<open>str.strip()\<close> removes, among the code points below 256 (a character
      of the model stands for such a code point): the ASCII whitespace, the separators
      U+001C to U+001F, U+0085 and U+00A0\<close>
  "py_isspace c \<longleftrightarrow>
     (of_char c :: nat) \<in> {9, 10, 11, 12, 13, 28, 29, 30, 31, 32, 133, 160}"

definition py_strip :: "string \<Rightarrow> string" where
  "py_strip s = rev (dropWhile py_isspace (rev (dropWhile py_isspace s)))"

definition rstrip_char :: "char \<Rightarrow> string \<Rightarrow> string" where
  \<comment> \<open>\<^verbatim>\<open>s.rstrip(c)\<close> for a single character\<close>
  "rstrip_char c s = rev (dropWhile (\<lambda>x. x = c) (rev s))"

definition find_anchor_elements :: "tag list \<Rightarrow> tag list" where
  "find_anchor_elements tags =
     filter (\<lambda>t. tag_id t \<noteq> ''tv-content'' \<and> matches_any_prefix (tag_id t)) tags"

definition serialize_nodes :: "string list \<Rightarrow> string" where
  \<comment> \<open>\<^verbatim>\<open>"".join(str(node) for node in nodes).strip()\<close>, on the \<^verbatim>\<open>str\<close> of each node\<close>
  "serialize_nodes strs = py_strip (concat strs)"

definition infer_symbol_name :: "tag \<Rightarrow> string" where
  "infer_symbol_name anchor =
     (case find (\<lambda>text. text \<noteq> []) (heading_texts anchor) of
        Some text \<Rightarrow> text
      | None \<Rightarrow> own_text anchor)"

definition infer_symbol_type :: "tag \<Rightarrow> string \<Rightarrow> string" where
  "infer_symbol_type anchor anchor_id =
     (case find (\<lambda>text. text \<noteq> []) (class_hint_texts anchor) of
        Some text \<Rightarrow> text
      | None \<Rightarrow>
         (case first_matching_prefix anchor_id of
            Some p \<Rightarrow> rstrip_char CHR ''_'' p
          | None \<Rightarrow> ''unknown''))"

definition starts_next_anchor :: "sibling_node \<Rightarrow> bool" where
  \<comment> \<open>\<^verbatim>\<open>sibling_id and any(sibling_id.startswith(prefix) for prefix in ANCHOR_PREFIXES)\<close>\<close>
  "starts_next_anchor sibling =
     (case sib_id sibling of
        None \<Rightarrow> False
      | Some i \<Rightarrow> i \<noteq> [] \<and> matches_any_prefix i)"

definition anchor_raw_html :: "tag \<Rightarrow> string" where
  \<comment> \<open>the anchor and its siblings up to the next anchor, serialized\<close>
  "anchor_raw_html anchor =
     serialize_nodes (tag_str anchor #
       map sib_str (takeWhile (\<lambda>s. \<not> starts_next_anchor s) (next_siblings anchor)))"

record ref_segment =
  s_canonical_url :: string
  s_doc_type :: string
  s_pine_version :: string
  s_run_id :: string
  s_source_artifact_id :: string
  s_anchor_id :: string
  s_symbol_type :: string
  s_symbol_name :: string
  s_segment_order :: int
  s_raw_html :: string
  s_segment_id :: string

record qc =
  segment_count :: int
  empty_symbol_names :: int
  empty_raw_html :: int

text \<open>
  The loop of \<^verbatim>\<open>segment_reference_html\<close> over \<^verbatim>\<open>enumerate(anchors, start=1)\<close>, with its
  local variables \<^verbatim>\<open>segments\<close>, \<^verbatim>\<open>seen\<close>, \<^verbatim>\<open>empty_symbol_names\<close> and \<^verbatim>\<open>empty_raw\<close> as
  arguments; a raised \<^verbatim>\<open>ValueError\<close> is \<open>Inl\<close> of its message.
\<close>

fun segment_anchors ::
  "string \<Rightarrow> string \<Rightarrow> string \<Rightarrow> tag list \<Rightarrow> int \<Rightarrow> string set \<Rightarrow> int \<Rightarrow> int
     \<Rightarrow> ref_segment list \<Rightarrow> string + ref_segment list \<times> qc" where
  "segment_anchors canonical_url run_id source_artifact_id [] idx seen esn eraw segments =
     Inr (segments, \<lparr> segment_count = int (length segments),
                       empty_symbol_names = esn, empty_raw_html = eraw \<rparr>)"
| "segment_anchors canonical_url run_id source_artifact_id (anchor # rest) idx seen esn eraw
     segments =
     (let anchor_id = tag_id anchor in
      if anchor_id \<in> seen then Inl ''duplicate_anchor_id''
      else
        let raw_html = anchor_raw_html anchor;
            eraw' = (if raw_html = [] then eraw + 1 else eraw);
            symbol_name = infer_symbol_name anchor;
            esn' = (if symbol_name = [] then esn + 1 else esn);
            symbol_type = infer_symbol_type anchor anchor_id;
            segment = \<lparr> s_canonical_url = canonical_url,
                        s_doc_type = ''reference'',
                        s_pine_version = ''v6'',
                        s_run_id = run_id,
                        s_source_artifact_id = source_artifact_id,
                        s_anchor_id = anchor_id,
                        s_symbol_type = symbol_type,
                        s_symbol_name = symbol_name,
                        s_segment_order = idx,
                        s_raw_html = raw_html,
                        s_segment_id = source_artifact_id @ '':'' @ anchor_id \<rparr>
        in segment_anchors canonical_url run_id source_artifact_id rest (idx + 1)
             (insert anchor_id seen) esn' eraw' (segments @ [segment]))"

definition segment_reference_html ::
  "document \<Rightarrow> string \<Rightarrow> string \<Rightarrow> string \<Rightarrow> string + ref_segment list \<times> qc" where
  "segment_reference_html doc canonical_url run_id source_artifact_id =
     (case doc of
        None \<Rightarrow> Inl ''reference_container_missing''
      | Some tags \<Rightarrow>
          (let anchors = find_anchor_elements tags in
           if anchors = [] then Inl ''reference_no_anchors''
           else segment_anchors canonical_url run_id source_artifact_id anchors 1 {} 0 0 []))"

text \<open>
  \<^verbatim>\<open>segment_reference\<close> of \<^verbatim>\<open>scripts/ingest_reference_v6_rendered.py\<close>. The state is the
  content of the segment output file (one segment per line, opened for append) and of the
  segmentation log. The function ends normally (\<open>None\<close>) or by \<^verbatim>\<open>SystemExit\<close>, or by the
  \<^verbatim>\<open>ValueError\<close> of \<^verbatim>\<open>segment_reference_html\<close>, which it does not catch.
  \<^verbatim>\<open>int(anchor_total * 0.1)\<close> truncates a float product; under \<^verbatim>\<open>max(5, _)\<close> it agrees
  with \<open>anchor_total div 10\<close> for every count below \<open>2^52\<close> (for a negative count both
  give 5).
\<close>

datatype py_exception =
    SystemExit string
  | ValueError string
  | FileExistsError string
  | FileNotFoundError string
  | AttributeError string
  | JSONDecodeError
  | FetchException

record seg_log_record =
  l_run_id :: string
  l_status :: string
  l_reason :: string
  l_counts :: "(string \<times> int) list"

record seg_store =
  segments_file :: "ref_segment list"
  segment_log :: "seg_log_record list"

definition write_jsonl :: "seg_store \<Rightarrow> seg_log_record \<Rightarrow> seg_store" where
  "write_jsonl store rec = store \<lparr> segment_log := segment_log store @ [rec] \<rparr>"

definition segment_reference ::
  "string \<Rightarrow> manifest \<Rightarrow> document \<Rightarrow> seg_store \<Rightarrow> py_exception option \<times> seg_store" where
  "segment_reference run_id m doc store =
     (if m_status m \<noteq> ''complete'' then (Some (SystemExit ''render_incomplete''), store)
      else
        case segment_reference_html doc (m_canonical_url m) run_id (artifact_checksum_sha256 m) of
          Inl e \<Rightarrow> (Some (ValueError e), store)
        | Inr (segments, q) \<Rightarrow>
            (let anchor_total = anchor_count_total m in
             if segment_count q \<noteq> anchor_total then
               (Some (SystemExit ''segment_count_mismatch''),
                write_jsonl store \<lparr> l_run_id = run_id, l_status = ''failed'',
                  l_reason = ''segment_count_mismatch'',
                  l_counts = [(''segment_count'', segment_count q),
                              (''anchor_count_total'', anchor_total)] \<rparr>)
             else
               let empty_limit = max 5 (anchor_total div 10) in
               if empty_symbol_names q > empty_limit then
                 (Some (SystemExit ''empty_symbol_names''),
                  write_jsonl store \<lparr> l_run_id = run_id, l_status = ''failed'',
                    l_reason = ''empty_symbol_names'',
                    l_counts = [(''empty_symbol_names'', empty_symbol_names q),
                                (''anchor_count_total'', anchor_total)] \<rparr>)
               else if empty_raw_html q > 0 then
                 (Some (SystemExit ''empty_raw_html''),
                  write_jsonl store \<lparr> l_run_id = run_id, l_status = ''failed'',
                    l_reason = ''empty_raw_html'',
                    l_counts = [(''empty_raw_html'', empty_raw_html q)] \<rparr>)
               else
                 (None,
                  write_jsonl (store \<lparr> segments_file := segments_file store @ segments \<rparr>)
                    \<lparr> l_run_id = run_id, l_status = ''complete'', l_reason = [],
                      l_counts = [(''segment_count'', segment_count q),
                                  (''empty_symbol_names'', empty_symbol_names q),
                                  (''empty_raw_html'', empty_raw_html q)] \<rparr>)))"

text \<open>
  \<^verbatim>\<open>parse_reference_segments\<close> of \<^verbatim>\<open>segmentation.py\<close>, the segmenter of fetched (not
  rendered) reference artifacts: every tag with an id other than \<^verbatim>\<open>tv-content\<close> starts a
  segment, which runs to the next sibling with a non-empty id.
\<close>

record Artifact =
  a_source_artifact_id :: string
  a_raw_path :: string
  a_canonical_url :: string
  a_doc_type :: string
  a_pine_version :: string

record Segment =
  seg_source_artifact_id :: string
  seg_canonical_url :: string
  seg_doc_type :: string
  seg_pine_version :: string
  seg_segment_id :: string
  seg_segment_type :: string
  seg_segment_order :: int
  seg_raw_html :: string
  seg_anchor_id :: "string option"
  seg_symbol_name :: "string option"
  seg_symbol_type :: "string option"

definition extract_symbol_type :: "tag \<Rightarrow> string option" where
  "extract_symbol_type anchor = find (\<lambda>text. text \<noteq> []) (class_hint_texts anchor)"

definition has_id :: "sibling_node \<Rightarrow> bool" where
  \<comment> \<open>\<^verbatim>\<open>getattr(sibling, "attrs", {}).get("id")\<close> is truthy\<close>
  "has_id sibling = (case sib_id sibling of None \<Rightarrow> False | Some i \<Rightarrow> i \<noteq> [])"

fun parse_anchors :: "Artifact \<Rightarrow> tag list \<Rightarrow> int \<Rightarrow> Segment list \<Rightarrow> Segment list" where
  "parse_anchors artifact [] segment_order segments = segments"
| "parse_anchors artifact (anchor # rest) segment_order segments =
     (let anchor_id = tag_id anchor;
          raw_html = serialize_nodes (tag_str anchor #
            map sib_str (takeWhile (\<lambda>s. \<not> has_id s) (next_siblings anchor)));
          symbol_name = (if own_text anchor = [] then None else Some (own_text anchor));
          symbol_type = extract_symbol_type anchor;
          segment = \<lparr> seg_source_artifact_id = a_source_artifact_id artifact,
                      seg_canonical_url = a_canonical_url artifact,
                      seg_doc_type = a_doc_type artifact,
                      seg_pine_version = a_pine_version artifact,
                      seg_segment_id = a_source_artifact_id artifact @ '':'' @ anchor_id,
                      seg_segment_type = ''reference_entry'',
                      seg_segment_order = segment_order,
                      seg_raw_html = raw_html,
                      seg_anchor_id = Some anchor_id,
                      seg_symbol_name = symbol_name,
                      seg_symbol_type = symbol_type \<rparr>
      in parse_anchors artifact rest (segment_order + 1) (segments @ [segment]))"

definition parse_reference_segments :: "Artifact \<Rightarrow> document \<Rightarrow> string + Segment list" where
  "parse_reference_segments artifact doc =
     (case doc of
        None \<Rightarrow> Inl ''reference_container_missing''
      | Some tags \<Rightarrow>
          (let anchors = filter (\<lambda>t. tag_id t \<noteq> ''tv-content'') tags in
           if anchors = [] then Inl ''reference_no_anchors''
           else Inr (parse_anchors artifact anchors 1 [])))"

text \<open>A container with two elements of id \<^verbatim>\<open>fun_abs\<close>, and an artifact and a store.\<close>

definition abs_tag :: "string \<Rightarrow> tag" where
  \<open>abs_tag body =
     \<lparr> tag_id = ''fun_abs'', tag_str = ''<div id="fun_abs">'' @ body @ ''</div>'',
       next_siblings = [], heading_texts = [body], own_text = body,
       class_hint_texts = [] \<rparr>\<close>

definition duplicate_doc :: document where
  "duplicate_doc = Some [abs_tag ''abs()'', abs_tag ''abs(x)'']"

definition single_doc :: document where
  "single_doc = Some [abs_tag ''abs()'']"

definition sample_artifact :: Artifact where
  "sample_artifact =
     \<lparr> a_source_artifact_id = ''9f2c'', a_raw_path = ''raw/reference/v6/9f2c.html'',
       a_canonical_url = ''https://www.tradingview.com/pine-script-reference/v6'',
       a_doc_type = ''reference'', a_pine_version = ''v6'' \<rparr>"

definition empty_store :: seg_store where
  "empty_store = \<lparr> segments_file = [], segment_log = [] \<rparr>"

section \<open>Normalization of reference symbols\<close>

text \<open>
  One line of the segments file is blank, is not JSON, or is a JSON object; of the object
  the code reads the keys below with \<^verbatim>\<open>segment.get\<close>, so a key that is absent or
  \<^verbatim>\<open>null\<close> is \<open>None\<close> (for \<^verbatim>\<open>symbol_name\<close> the default of an absent key is the empty
  string, which the required-field check treats like \<^verbatim>\<open>None\<close>). The output file is absent
  (\<open>None\<close>) or holds the records written to it, one per line.
\<close>

record segment_json =
  j_anchor_id :: "string option"
  j_source_artifact_id :: "string option"
  j_symbol_name :: "string option"
  j_canonical_url :: "string option"
  j_segment_order :: "int option"
  j_raw_html :: "string option"
  j_run_id :: "string option"
  j_segment_id :: "string option"

datatype line = Blank | BadJson | Seg segment_json

record reference_symbol =
  reference_symbol_id :: string
  rs_anchor_id :: string
  rs_symbol_name :: "string option"
  rs_symbol_type :: string
  rs_canonical_url :: "string option"
  rs_pine_version :: string
  rs_segment_order :: "int option"
  rs_raw_html :: "string option"
  rs_run_id :: "string option"
  rs_source_artifact_id :: "string option"
  rs_segment_id :: "string option"
  symbol_name_normalized :: string
  symbol_signature :: string
  symbol_category :: string
  rs_notes :: string

definition py_str :: "string option \<Rightarrow> string" where
  \<comment> \<open>how an f-string formats a value that is a string or \<^verbatim>\<open>None\<close>\<close>
  "py_str v = (case v of None \<Rightarrow> ''None'' | Some s \<Rightarrow> s)"

definition SYMBOL_TYPES :: "string set" where
  "SYMBOL_TYPES = set (map (rstrip_char CHR ''_'') ANCHOR_PREFIXES)"

definition derive_symbol_type :: "string option \<Rightarrow> py_exception + string" where
  \<comment> \<open>\<^verbatim>\<open>None.startswith\<close> raises \<^verbatim>\<open>AttributeError\<close>\<close>
  "derive_symbol_type anchor =
     (case anchor of
        None \<Rightarrow> Inl (AttributeError ''startswith'')
      | Some anchor_id \<Rightarrow>
          (case first_matching_prefix anchor_id of
             Some p \<Rightarrow> Inr (rstrip_char CHR ''_'' p)
           | None \<Rightarrow> Inl (ValueError (''unknown_anchor_prefix:'' @ anchor_id))))"

definition is_missing :: "string option \<Rightarrow> bool" where
  \<comment> \<open>\<^verbatim>\<open>value in (None, "")\<close>\<close>
  "is_missing v \<longleftrightarrow> v = None \<or> v = Some []"

definition join_with :: "string \<Rightarrow> string list \<Rightarrow> string" where
  \<comment> \<open>\<^verbatim>\<open>sep.join(parts)\<close>\<close>
  "join_with sep parts =
     (case parts of [] \<Rightarrow> [] | p # ps \<Rightarrow> p @ concat (map (\<lambda>q. sep @ q) ps))"

definition missing_required :: "reference_symbol \<Rightarrow> string list" where
  \<comment> \<open>\<^verbatim>\<open>[key for key in required if record.get(key) in (None, "")]\<close>, in the order of
      \<^verbatim>\<open>required\<close>; an integer is never in \<^verbatim>\<open>(None, "")\<close>\<close>
  "missing_required rec =
     map fst (filter snd
       [(''reference_symbol_id'', reference_symbol_id rec = []),
        (''anchor_id'', rs_anchor_id rec = []),
        (''symbol_name'', is_missing (rs_symbol_name rec)),
        (''symbol_type'', rs_symbol_type rec = []),
        (''canonical_url'', is_missing (rs_canonical_url rec)),
        (''pine_version'', rs_pine_version rec = []),
        (''segment_order'', rs_segment_order rec = None),
        (''raw_html'', is_missing (rs_raw_html rec)),
        (''run_id'', is_missing (rs_run_id rec)),
        (''source_artifact_id'', is_missing (rs_source_artifact_id rec)),
        (''segment_id'', is_missing (rs_segment_id rec))])"

definition derive_id :: "segment_json \<Rightarrow> string" where
  \<comment> \<open>\<^verbatim>\<open>f"{source_artifact_id}:{anchor_id}"\<close>\<close>
  "derive_id segment = py_str (j_source_artifact_id segment) @ '':'' @ py_str (j_anchor_id segment)"

definition normalize_record :: "segment_json \<Rightarrow> py_exception + reference_symbol" where
  \<comment> \<open>the body of the loop up to the duplicate check\<close>
  "normalize_record segment =
     (case derive_symbol_type (j_anchor_id segment) of
        Inl e \<Rightarrow> Inl e
      | Inr symbol_type \<Rightarrow>
          (let rec = \<lparr> reference_symbol_id = derive_id segment,
                       rs_anchor_id = py_str (j_anchor_id segment),
                       rs_symbol_name = j_symbol_name segment,
                       rs_symbol_type = symbol_type,
                       rs_canonical_url = j_canonical_url segment,
                       rs_pine_version = ''v6'',
                       rs_segment_order = j_segment_order segment,
                       rs_raw_html = j_raw_html segment,
                       rs_run_id = j_run_id segment,
                       rs_source_artifact_id = j_source_artifact_id segment,
                       rs_segment_id = j_segment_id segment,
                       symbol_name_normalized = [],
                       symbol_signature = [],
                       symbol_category = [],
                       rs_notes = [] \<rparr>;
               missing = missing_required rec
           in if missing \<noteq> [] then
                Inl (ValueError (''missing_required:'' @ join_with '','' missing))
              else if rs_pine_version rec \<noteq> ''v6'' then
                Inl (ValueError (''invalid_pine_version:'' @ rs_pine_version rec))
              else if rs_symbol_type rec \<notin> SYMBOL_TYPES then
                Inl (ValueError (''invalid_symbol_type:'' @ rs_symbol_type rec))
              else Inr rec))"

text \<open>
  The loop over the lines of the segments file, with \<^verbatim>\<open>seen_ids\<close>, \<^verbatim>\<open>sample_ids\<close>,
  \<^verbatim>\<open>written\<close> and the lines written to \<^verbatim>\<open>target\<close> so far. An exception leaves the
  \<^verbatim>\<open>with\<close> block, which closes \<^verbatim>\<open>target\<close> and so flushes what was written: the second
  component is the content of the output file in either case.
\<close>

fun normalize_lines ::
  "line list \<Rightarrow> string set \<Rightarrow> string list \<Rightarrow> int \<Rightarrow> reference_symbol list
     \<Rightarrow> (py_exception + int \<times> string list) \<times> reference_symbol list" where
  "normalize_lines [] seen_ids sample_ids written target = (Inr (written, sample_ids), target)"
| "normalize_lines (Blank # rest) seen_ids sample_ids written target =
     normalize_lines rest seen_ids sample_ids written target"
| "normalize_lines (BadJson # rest) seen_ids sample_ids written target =
     (Inl JSONDecodeError, target)"
| "normalize_lines (Seg segment # rest) seen_ids sample_ids written target =
     (case normalize_record segment of
        Inl e \<Rightarrow> (Inl e, target)
      | Inr rec \<Rightarrow>
          if reference_symbol_id rec \<in> seen_ids then
            (Inl (ValueError (''duplicate_reference_symbol_id:'' @ reference_symbol_id rec)),
             target)
          else
            normalize_lines rest (insert (reference_symbol_id rec) seen_ids)
              (if length sample_ids < 5 then sample_ids @ [reference_symbol_id rec]
               else sample_ids)
              (written + 1) (target @ [rec]))"

definition output_nonempty :: "reference_symbol list option \<Rightarrow> bool" where
  \<comment> \<open>\<^verbatim>\<open>os.path.exists(output_path) and os.path.getsize(output_path) > 0\<close>\<close>
  "output_nonempty out = (case out of None \<Rightarrow> False | Some content \<Rightarrow> content \<noteq> [])"

definition os_path_dirname :: "string \<Rightarrow> string" where
  \<comment> \<open>\<^verbatim>\<open>os.path.dirname\<close> of \<^verbatim>\<open>posixpath\<close>: the part up to the last slash, without its
      trailing slashes unless it consists of slashes\<close>
  "os_path_dirname p =
     (let head = rev (dropWhile (\<lambda>c. c \<noteq> CHR ''/'') (rev p))
      in if head \<noteq> [] \<and> head \<noteq> replicate (length head) CHR ''/''
         then rstrip_char CHR ''/'' head else head)"

text \<open>
  \<^verbatim>\<open>normalize_reference_symbols\<close> on the lines of the segments file, the output path and
  the content of the output file. After the check of the output file,
  \<^verbatim>\<open>os.makedirs(os.path.dirname(output_path), exist_ok=True)\<close> raises
  \<^verbatim>\<open>FileNotFoundError\<close> when the path has no directory part (its filename is the empty
  string), before any file is opened; the output file is then opened for appending,
  which creates it when it is absent.
\<close>

definition normalize_reference_symbols ::
  "line list \<Rightarrow> string \<Rightarrow> reference_symbol list option
     \<Rightarrow> (py_exception + int \<times> string list) \<times> reference_symbol list option" where
  "normalize_reference_symbols source_lines output_path out =
     (if output_nonempty out then (Inl (FileExistsError (''output_exists:'' @ output_path)), out)
      else if os_path_dirname output_path = [] then (Inl (FileNotFoundError []), out)
      else
        (let (res, target) = normalize_lines source_lines {} [] 0 []
         in (res, Some target)))"

definition segs_of :: "line list \<Rightarrow> segment_json list" where
  \<comment> \<open>the segments of a batch, in order\<close>
  "segs_of lines = concat (map (\<lambda>l. case l of Seg s \<Rightarrow> [s] | _ \<Rightarrow> []) lines)"

text \<open>A well-formed segment of the rendered reference, and the record it normalizes to.\<close>

definition abs_segment :: segment_json where
  "abs_segment =
     \<lparr> j_anchor_id = Some ''fun_abs'', j_source_artifact_id = Some ''9f2c'',
       j_symbol_name = Some ''abs()'',
       j_canonical_url = Some ''https://www.tradingview.com/pine-script-reference/v6/'',
       j_segment_order = Some 1, j_raw_html = Some ''<div>abs()</div>'',
       j_run_id = Some ''r1'', j_segment_id = Some ''9f2c:fun_abs'' \<rparr>"

definition nameless_segment :: segment_json where
  \<comment> \<open>the same segment with \<^verbatim>\<open>"symbol_name": null\<close>\<close>
  "nameless_segment = abs_segment \<lparr> j_symbol_name := None \<rparr>"

definition abs_record :: reference_symbol where
  "abs_record =
     \<lparr> reference_symbol_id = ''9f2c:fun_abs'',
       rs_anchor_id = ''fun_abs'',
       rs_symbol_name = Some ''abs()'',
       rs_symbol_type = ''fun'',
       rs_canonical_url = Some ''https://www.tradingview.com/pine-script-reference/v6/'',
       rs_pine_version = ''v6'',
       rs_segment_order = Some 1,
       rs_raw_html = Some ''<div>abs()</div>'',
       rs_run_id = Some ''r1'',
       rs_source_artifact_id = Some ''9f2c'',
       rs_segment_id = Some ''9f2c:fun_abs'',
       symbol_name_normalized = [], symbol_signature = [], symbol_category = [],
       rs_notes = [] \<rparr>"

section \<open>Content identity: URL canonicalization\<close>

text \<open>
  \<^verbatim>\<open>urlparse\<close> and \<^verbatim>\<open>urlunparse\<close> belong to the standard library. \<^verbatim>\<open>urlparse\<close> is a
  parameter of the model: on an input it returns the six components or raises (it raises
  \<^verbatim>\<open>ValueError\<close> on a bracketed host that is no IP literal, for instance), and
  \<^verbatim>\<open>canonicalize_url\<close> does not catch what it raises. \<^verbatim>\<open>urlunparse\<close> is written after
  \<^verbatim>\<open>urllib.parse\<close> (\<^verbatim>\<open>urlunparse\<close> appends the params, \<^verbatim>\<open>urlunsplit\<close> assembles the rest),
  and so is the \<^verbatim>\<open>hostname\<close> of a parse result, the host the network location names:
  what follows the last \<^verbatim>\<open>@\<close>, up to the port, in lower case.
\<close>

record ParseResult =
  u_scheme :: string
  u_netloc :: string
  u_path :: string
  u_params :: string
  u_query :: string
  u_fragment :: string

definition uses_netloc :: "string list" where
  "uses_netloc = ['''', ''ftp'', ''http'', ''gopher'', ''nntp'', ''telnet'', ''imap'', ''wais'',
     ''file'', ''mms'', ''https'', ''shttp'', ''snews'', ''prospero'', ''rtsp'', ''rtspu'',
     ''rsync'', ''svn'', ''svn+ssh'', ''sftp'', ''nfs'', ''git'', ''git+ssh'', ''ws'', ''wss'']"

definition urlunparse :: "string \<times> string \<times> string \<times> string \<times> string \<times> string \<Rightarrow> string" where
  "urlunparse components =
     (case components of (scheme, netloc, url, params, query, fragment) \<Rightarrow>
        (let url1 = (if params \<noteq> [] then url @ '';'' @ params else url);
             url2 = (if netloc \<noteq> []
                        \<or> (scheme \<noteq> [] \<and> scheme \<in> set uses_netloc \<and> take 2 url1 \<noteq> ''//'')
                     then ''//'' @ netloc
                          @ (if url1 \<noteq> [] \<and> take 1 url1 \<noteq> ''/'' then ''/'' @ url1 else url1)
                     else url1);
             url3 = (if scheme \<noteq> [] then scheme @ '':'' @ url2 else url2);
             url4 = (if query \<noteq> [] then url3 @ ''?'' @ query else url3)
         in if fragment \<noteq> [] then url4 @ ''#'' @ fragment else url4))"

definition endswith :: "string \<Rightarrow> string \<Rightarrow> bool" where
  \<comment> \<open>\<^verbatim>\<open>s.endswith(t)\<close>\<close>
  "endswith s t = suffix t s"

definition canonicalize_url ::
  "(string \<Rightarrow> py_exception + ParseResult) \<Rightarrow> string \<Rightarrow> py_exception + string option" where
  "canonicalize_url urlparse raw_url =
     (case urlparse raw_url of
        Inl e \<Rightarrow> Inl e
      | Inr parsed \<Rightarrow>
          if u_scheme parsed = [] \<and> u_netloc parsed = [] then Inr None
          else
            let scheme = ''https'';
                netloc0 = (if u_netloc parsed \<noteq> [] then u_netloc parsed
                           else ''www.tradingview.com'');
                netloc = (if netloc0 = ''tradingview.com'' then ''www.tradingview.com''
                          else netloc0);
                path0 = (if u_path parsed \<noteq> [] then u_path parsed else ''/'');
                path = (if path0 \<noteq> ''/'' \<and> endswith path0 ''/''
                        then rstrip_char CHR ''/'' path0 else path0)
            in Inr (Some (urlunparse (scheme, netloc, path, [], [], []))))"

definition partition_at :: "char \<Rightarrow> string \<Rightarrow> string \<times> bool \<times> string" where
  \<comment> \<open>\<^verbatim>\<open>s.partition(c)\<close>: the part before the first \<open>c\<close>, whether there is one, the part after it\<close>
  "partition_at c s =
     (takeWhile (\<lambda>x. x \<noteq> c) s, dropWhile (\<lambda>x. x \<noteq> c) s \<noteq> [],
      tl (dropWhile (\<lambda>x. x \<noteq> c) s))"

definition py_lower :: "string \<Rightarrow> string" where
  \<comment> \<open>\<^verbatim>\<open>str.lower()\<close> on code points below 256\<close>
  "py_lower s =
     map (\<lambda>c. let n = (of_char c :: nat)
              in if (65 \<le> n \<and> n \<le> 90) \<or> (192 \<le> n \<and> n \<le> 214) \<or> (216 \<le> n \<and> n \<le> 222)
                 then char_of (n + 32) else c) s"

definition hostname :: "ParseResult \<Rightarrow> string option" where
  \<comment> \<open>the property \<^verbatim>\<open>hostname\<close> of \<^verbatim>\<open>urllib.parse\<close>\<close>
  "hostname parsed =
     (let hostinfo = rev (takeWhile (\<lambda>c. c \<noteq> CHR ''@'') (rev (u_netloc parsed)));
          bracket = partition_at CHR ''['' hostinfo;
          host = (if fst (snd bracket) then fst (partition_at CHR '']'' (snd (snd bracket)))
                  else fst (partition_at CHR '':'' hostinfo));
          zone = partition_at CHR ''%'' host
      in if host = [] then None
         else Some (py_lower (fst zone) @ (if fst (snd zone) then ''%'' else []) @ snd (snd zone)))"

definition docs_parse :: "string \<Rightarrow> py_exception + ParseResult" where
  \<comment> \<open>what \<^verbatim>\<open>urlparse("http://tradingview.com/pine-script-docs/?a=1#top")\<close> returns\<close>
  "docs_parse raw =
     Inr \<lparr> u_scheme = ''http'', u_netloc = ''tradingview.com'', u_path = ''/pine-script-docs/'',
       u_params = [], u_query = ''a=1'', u_fragment = ''top'' \<rparr>"

definition port_parse :: "string \<Rightarrow> py_exception + ParseResult" where
  \<comment> \<open>what \<^verbatim>\<open>urlparse("http://tradingview.com:80/x/")\<close> returns\<close>
  "port_parse raw =
     Inr \<lparr> u_scheme = ''http'', u_netloc = ''tradingview.com:80'', u_path = ''/x/'',
       u_params = [], u_query = [], u_fragment = [] \<rparr>"

definition relative_parse :: "string \<Rightarrow> py_exception + ParseResult" where
  \<comment> \<open>what \<^verbatim>\<open>urlparse("pine-script-docs/welcome")\<close> returns\<close>
  "relative_parse raw =
     Inr \<lparr> u_scheme = [], u_netloc = [], u_path = ''pine-script-docs/welcome'',
       u_params = [], u_query = [], u_fragment = [] \<rparr>"

definition bracket_parse :: "string \<Rightarrow> py_exception + ParseResult" where
  \<comment> \<open>\<^verbatim>\<open>urlparse("http://[tradingview.com/a")\<close> raises \<^verbatim>\<open>ValueError("Invalid IPv6 URL")\<close>\<close>
  "bracket_parse raw = Inl (ValueError ''Invalid IPv6 URL'')"

section \<open>Acquisition engine\<close>

record InventoryItem =
  i_canonical_url :: string
  i_doc_type :: string
  i_pine_version :: string
  source_entry_point :: string
  discovered_at :: string
  discovery_method :: string
  segmentation_strategy :: "string option"

record FetchResult =
  f_status :: int
  content_type :: "string option"
  content_encoding :: "string option"
  raw_bytes :: string
  decoded_length :: "int option"

record FailureRecord =
  fr_canonical_url :: string
  fr_doc_type :: string
  fr_pine_version :: string
  fr_reason :: string

text \<open>The dictionary \<^verbatim>\<open>write_raw_and_meta\<close> dumps into the sidecar.\<close>

record meta =
  meta_canonical_url :: string
  meta_doc_type :: string
  meta_pine_version :: string
  meta_source_entry_point :: string
  meta_discovered_at :: string
  meta_discovery_method :: string
  meta_segmentation_strategy :: "string option"
  fetched_at :: string
  http_status :: int
  meta_content_type :: "string option"
  content_length :: "int option"
  meta_content_encoding :: "string option"
  checksum :: string
  acquisition_run_id :: string

text \<open>
  The environment of a run. \<open>sha256_hex\<close> is the hash; \<open>url_path\<close> is
  \<^verbatim>\<open>urlparse(url).path\<close>; \<open>fetch_bytes n url\<close> is what the \<open>n\<close>-th call of \<^verbatim>\<open>fetch_bytes\<close>
  of the run does when it asks for \<open>url\<close> (it raises or returns); \<open>strftime_now n\<close> and
  \<open>utc_now_iso n\<close> are the two renderings of the clock at its \<open>n\<close>-th reading;
  \<open>json_dump\<close> is the text \<^verbatim>\<open>json.dump(meta, indent=2, sort_keys=True)\<close> writes, and
  \<open>json_checksum text\<close> is \<^verbatim>\<open>json.loads(text).get("checksum")\<close>, \<open>None\<close> when the text is
  not JSON or has no such value (a sidecar holding JSON that is not an object makes
  \<^verbatim>\<open>existing_checksum\<close> raise; such files are outside the model).
\<close>

datatype fetch_outcome = Raises | Returns FetchResult

record env =
  sha256_hex :: "string \<Rightarrow> string"
  url_path :: "string \<Rightarrow> string"
  fetch_bytes :: "nat \<Rightarrow> string \<Rightarrow> fetch_outcome"
  strftime_now :: "nat \<Rightarrow> string"
  utc_now_iso :: "nat \<Rightarrow> string"
  json_dump :: "meta \<Rightarrow> string"
  json_checksum :: "string \<Rightarrow> string option"

text \<open>
  The state a run changes: the files under the output root (path to bytes), the run log,
  the URLs requested so far (one entry per call of \<^verbatim>\<open>fetch_bytes\<close>), the number of clock
  readings, and the five counters of \<^verbatim>\<open>counts\<close>. Directories and the sleeps between
  requests are not part of the state.
\<close>

record world =
  fs :: "string \<rightharpoonup> string"
  run_log :: "FailureRecord list"
  requests :: "string list"
  ticks :: nat
  attempted :: int
  written :: int
  skipped :: int
  failed_guide :: int
  failed_reference :: int

record params =
  output_root :: string
  run_id :: string
  retries :: int
  disallow_paths :: "string list"

definition url_hash :: "env \<Rightarrow> string \<Rightarrow> string" where
  "url_hash E url = sha256_hex E url"

definition os_path_join :: "string \<Rightarrow> string \<Rightarrow> string" where
  \<comment> \<open>\<^verbatim>\<open>posixpath.join\<close> of two components\<close>
  "os_path_join a b =
     (if prefix ''/'' b then b
      else if a = [] \<or> endswith a ''/'' then a @ b
      else a @ ''/'' @ b)"

function fetch_with_retries ::
  "env \<Rightarrow> int \<Rightarrow> string \<Rightarrow> world \<Rightarrow> int \<Rightarrow> FetchResult option \<times> world" where
  "fetch_with_retries E n url w attempt =
     (let w' = w \<lparr> requests := requests w @ [url] \<rparr> in
      case fetch_bytes E (length (requests w)) url of
        Returns result \<Rightarrow> (Some result, w')
      | Raises \<Rightarrow>
          (if attempt + 1 > n then (None, w')
           else fetch_with_retries E n url w' (attempt + 1)))"
  by pat_completeness auto
termination
  by (relation "measure (\<lambda>(E, n, url, w, attempt). nat (n - attempt))") auto

declare fetch_with_retries.simps [simp del]

definition is_allowed_by_robots :: "env \<Rightarrow> string \<Rightarrow> string list \<Rightarrow> bool" where
  "is_allowed_by_robots E url disallow =
     (let path = (if url_path E url \<noteq> [] then url_path E url else ''/'')
      in \<not> list_ex (\<lambda>d. prefix d path) disallow)"

definition artifact_paths ::
  "env \<Rightarrow> string \<Rightarrow> InventoryItem \<Rightarrow> string option \<Rightarrow> string \<times> string" where
  "artifact_paths E out_root item sfx =
     (let base_dir = os_path_join (os_path_join out_root (i_doc_type item)) (i_pine_version item);
          file_hash = url_hash E (i_canonical_url item);
          base_name = (case sfx of
                         None \<Rightarrow> file_hash @ ''.html''
                       | Some s \<Rightarrow> if s \<noteq> [] then file_hash @ ''.'' @ s @ ''.html''
                                   else file_hash @ ''.html'');
          raw_path = os_path_join base_dir base_name
      in (raw_path, raw_path @ ''.meta.json''))"

definition existing_checksum :: "env \<Rightarrow> (string \<rightharpoonup> string) \<Rightarrow> string \<Rightarrow> string \<Rightarrow> string option" where
  "existing_checksum E files meta_path raw_path =
     (case (files meta_path, files raw_path) of
        (Some meta_text, Some raw) \<Rightarrow>
          (case json_checksum E meta_text of
             None \<Rightarrow> None
           | Some expected \<Rightarrow>
               if expected = [] then None
               else if sha256_hex E raw \<noteq> expected then None
               else Some expected)
      | _ \<Rightarrow> None)"

definition write_raw_and_meta ::
  "env \<Rightarrow> string \<Rightarrow> string \<Rightarrow> InventoryItem \<Rightarrow> FetchResult \<Rightarrow> string \<Rightarrow> world \<Rightarrow> world" where
  "write_raw_and_meta E raw_path meta_path item result rid w =
     (let m = \<lparr> meta_canonical_url = i_canonical_url item,
                meta_doc_type = i_doc_type item,
                meta_pine_version = i_pine_version item,
                meta_source_entry_point = source_entry_point item,
                meta_discovered_at = discovered_at item,
                meta_discovery_method = discovery_method item,
                meta_segmentation_strategy = segmentation_strategy item,
                fetched_at = utc_now_iso E (ticks w),
                http_status = f_status result,
                meta_content_type = content_type result,
                content_length = decoded_length result,
                meta_content_encoding = content_encoding result,
                checksum = sha256_hex E (raw_bytes result),
                acquisition_run_id = rid \<rparr>
      in w \<lparr> fs := ((fs w)(raw_path \<mapsto> raw_bytes result))(meta_path \<mapsto> json_dump E m),
             ticks := ticks w + 1 \<rparr>)"

fun str_nat :: "nat \<Rightarrow> string" where
  "str_nat n =
     (if n < 10 then [char_of (48 + n)] else str_nat (n div 10) @ [char_of (48 + n mod 10)])"

declare str_nat.simps [simp del]

definition str_int :: "int \<Rightarrow> string" where
  \<comment> \<open>how an f-string formats an integer\<close>
  "str_int i = (if i < 0 then ''-'' @ str_nat (nat (- i)) else str_nat (nat i))"

datatype control = Continue | Break

text \<open>
  The block the loop repeats after each of its three kinds of failure: log a
  \<^verbatim>\<open>FailureRecord\<close>; for a \<^verbatim>\<open>reference\<close> item count it and \<^verbatim>\<open>break\<close>, for any other item
  count it as a guide failure and \<^verbatim>\<open>continue\<close>.
\<close>

definition record_failure :: "world \<Rightarrow> InventoryItem \<Rightarrow> string \<Rightarrow> control \<times> world" where
  "record_failure w item reason =
     (let w1 = w \<lparr> run_log := run_log w @
                 [\<lparr> fr_canonical_url = i_canonical_url item, fr_doc_type = i_doc_type item,
                    fr_pine_version = i_pine_version item, fr_reason = reason \<rparr>] \<rparr>
      in if i_doc_type item = ''reference''
         then (Break, w1 \<lparr> failed_reference := failed_reference w1 + 1 \<rparr>)
         else (Continue, w1 \<lparr> failed_guide := failed_guide w1 + 1 \<rparr>))"

text \<open>One iteration of the loop of \<^verbatim>\<open>acquire_inventory\<close>.\<close>

definition process_item :: "env \<Rightarrow> params \<Rightarrow> world \<Rightarrow> InventoryItem \<Rightarrow> control \<times> world" where
  "process_item E P w item =
     (let w0 = w \<lparr> attempted := attempted w + 1 \<rparr> in
      if \<not> is_allowed_by_robots E (i_canonical_url item) (disallow_paths P)
      then record_failure w0 item ''robots_disallow''
      else
        let (raw_path, meta_path) = artifact_paths E (output_root P) item None in
        case existing_checksum E (fs w0) meta_path raw_path of
          Some existing \<Rightarrow> (Continue, w0 \<lparr> skipped := skipped w0 + 1 \<rparr>)
        | None \<Rightarrow>
            (case fetch_with_retries E (retries P) (i_canonical_url item) w0 0 of
               (None, w1) \<Rightarrow> record_failure w1 item ''fetch_error''
             | (Some result, w1) \<Rightarrow>
                 if f_status result < 200 \<or> f_status result \<ge> 300
                 then record_failure w1 item (''http_'' @ str_int (f_status result))
                 else
                   let (paths, w2) =
                         (if raw_path \<in> dom (fs w1) \<or> meta_path \<in> dom (fs w1)
                          then (artifact_paths E (output_root P) item
                                  (Some (strftime_now E (ticks w1))),
                                w1 \<lparr> ticks := ticks w1 + 1 \<rparr>)
                          else ((raw_path, meta_path), w1));
                       w3 = write_raw_and_meta E (fst paths) (snd paths) item result (run_id P) w2
                   in (Continue, w3 \<lparr> written := written w3 + 1 \<rparr>)))"

fun acquire_items :: "env \<Rightarrow> params \<Rightarrow> world \<Rightarrow> InventoryItem list \<Rightarrow> control \<times> world" where
  "acquire_items E P w [] = (Continue, w)"
| "acquire_items E P w (item # rest) =
     (case process_item E P w item of
        (Break, w') \<Rightarrow> (Break, w')
      | (Continue, w') \<Rightarrow> acquire_items E P w' rest)"

text \<open>
  The start of a run. \<^verbatim>\<open>fetch_robots_txt\<close> calls \<^verbatim>\<open>fetch_bytes\<close> once, without retries and
  without catching what it raises (\<open>FetchException\<close> stands for that exception); a status
  other than 200 gives the empty text, and the bytes of the body stand for their decoded
  text. \<^verbatim>\<open>parse_robots_disallow\<close> reads the text line by line: \<^verbatim>\<open>str.splitlines\<close> breaks at
  \<open>\\n\<close>, \<open>\\r\<close>, \<open>\\r\\n\<close>, \<open>\\v\<close>, \<open>\\f\<close>, U+001C to U+001E and U+0085 (among
  the code points below 256).
\<close>

definition is_linebreak :: "char \<Rightarrow> bool" where
  "is_linebreak c \<longleftrightarrow> (of_char c :: nat) \<in> {10, 11, 12, 13, 28, 29, 30, 133}"

fun splitlines_from :: "string \<Rightarrow> string \<Rightarrow> string list" where
  \<comment> \<open>the lines of a text, given the part of the current line read so far\<close>
  "splitlines_from cur [] = (if cur = [] then [] else [cur])"
| "splitlines_from cur (c # cs) =
     (if is_linebreak c then
        (case cs of
           d # ds \<Rightarrow>
             if c = CHR 0x0D \<and> d = CHR 0x0A then cur # splitlines_from [] ds
             else cur # splitlines_from [] cs
         | [] \<Rightarrow> cur # splitlines_from [] cs)
      else splitlines_from (cur @ [c]) cs)"

definition py_splitlines :: "string \<Rightarrow> string list" where
  "py_splitlines s = splitlines_from [] s"

definition after_colon :: "string \<Rightarrow> string" where
  \<comment> \<open>\<^verbatim>\<open>stripped.split(":", 1)[1]\<close>, for a string that contains a colon\<close>
  "after_colon s = snd (snd (partition_at CHR '':'' s))"

fun parse_robots_lines :: "string list \<Rightarrow> bool \<Rightarrow> string list \<Rightarrow> string list" where
  "parse_robots_lines [] active disallow = disallow"
| "parse_robots_lines (line # rest) active disallow =
     (let stripped = py_strip line in
      if stripped = [] \<or> prefix ''#'' stripped then parse_robots_lines rest active disallow
      else
        let lower = py_lower stripped in
        if prefix ''user-agent:'' lower then
          parse_robots_lines rest (py_strip (after_colon stripped) = ''*'') disallow
        else if active \<and> prefix ''disallow:'' lower then
          (let path = py_strip (after_colon stripped)
           in parse_robots_lines rest active
                (if path \<noteq> [] then disallow @ [path] else disallow))
        else parse_robots_lines rest active disallow)"

definition parse_robots_disallow :: "string \<Rightarrow> string list" where
  "parse_robots_disallow robots_txt = parse_robots_lines (py_splitlines robots_txt) False []"

definition fetch_robots_txt :: "env \<Rightarrow> string \<Rightarrow> world \<Rightarrow> (py_exception + string) \<times> world" where
  "fetch_robots_txt E host w =
     (let robots_url = host @ ''/robots.txt'';
          w' = w \<lparr> requests := requests w @ [robots_url] \<rparr>
      in case fetch_bytes E (length (requests w)) robots_url of
           Raises \<Rightarrow> (Inl FetchException, w')
         | Returns result \<Rightarrow>
             (Inr (if f_status result \<noteq> 200 then [] else raw_bytes result), w'))"

text \<open>
  \<^verbatim>\<open>acquire_inventory\<close>, on its arguments \<^verbatim>\<open>output_root\<close>, \<^verbatim>\<open>run_log_path\<close> and
  \<^verbatim>\<open>retries\<close> (the delays are not part of the model). It fetches and parses
  \<^verbatim>\<open>robots.txt\<close>, derives the run id from the name of the run log, creates the directory
  of the run log (\<^verbatim>\<open>os.makedirs\<close> raises \<^verbatim>\<open>FileNotFoundError\<close> when the path has no
  directory part), opens the run log for writing (so it starts empty), starts the
  counters at zero and runs the loop. The function returns the counters or raises; the
  model returns the exception, if any, and the whole final state.
\<close>

record run_args =
  arg_output_root :: string
  arg_run_log_path :: string
  arg_retries :: int

definition HOST :: string where
  "HOST = ''https://www.tradingview.com''"

definition os_path_basename :: "string \<Rightarrow> string" where
  "os_path_basename p = rev (takeWhile (\<lambda>c. c \<noteq> CHR ''/'') (rev p))"

definition run_params :: "run_args \<Rightarrow> string \<Rightarrow> params" where
  \<comment> \<open>the values the loop works with, given the text of \<^verbatim>\<open>robots.txt\<close>\<close>
  "run_params A robots_txt =
     \<lparr> output_root = arg_output_root A,
       run_id = takeWhile (\<lambda>c. c \<noteq> CHR ''.'') (os_path_basename (arg_run_log_path A)),
       retries = arg_retries A,
       disallow_paths = parse_robots_disallow robots_txt \<rparr>"

definition acquire_inventory ::
  "env \<Rightarrow> run_args \<Rightarrow> world \<Rightarrow> InventoryItem list \<Rightarrow> py_exception option \<times> world" where
  "acquire_inventory E A w inventory =
     (case fetch_robots_txt E HOST w of
        (Inl e, w1) \<Rightarrow> (Some e, w1)
      | (Inr robots_txt, w1) \<Rightarrow>
          if os_path_dirname (arg_run_log_path A) = [] then (Some (FileNotFoundError []), w1)
          else
            (None,
             snd (acquire_items E (run_params A robots_txt)
                    (w1 \<lparr> run_log := [], attempted := 0, written := 0, skipped := 0,
                          failed_guide := 0, failed_reference := 0 \<rparr>) inventory)))"

text \<open>
  What happens to an item, as a function of the state in which its iteration starts:
  used to state which iterations are failures.
\<close>

datatype item_outcome = RobotsDisallow | Skipped | FetchError | HttpError int | Written

definition item_outcome :: "env \<Rightarrow> params \<Rightarrow> world \<Rightarrow> InventoryItem \<Rightarrow> item_outcome" where
  "item_outcome E P w item =
     (if \<not> is_allowed_by_robots E (i_canonical_url item) (disallow_paths P) then RobotsDisallow
      else
        let (raw_path, meta_path) = artifact_paths E (output_root P) item None in
        case existing_checksum E (fs w) meta_path raw_path of
          Some existing \<Rightarrow> Skipped
        | None \<Rightarrow>
            (case fst (fetch_with_retries E (retries P) (i_canonical_url item) w 0) of
               None \<Rightarrow> FetchError
             | Some result \<Rightarrow>
                 if f_status result < 200 \<or> f_status result \<ge> 300
                 then HttpError (f_status result) else Written))"

definition is_failure :: "item_outcome \<Rightarrow> bool" where
  "is_failure out = (case out of RobotsDisallow \<Rightarrow> True | FetchError \<Rightarrow> True
                     | HttpError n \<Rightarrow> True | _ \<Rightarrow> False)"

text \<open>The reason logged for a failure.\<close>

definition failure_reason :: "item_outcome \<Rightarrow> string" where
  "failure_reason out =
     (case out of RobotsDisallow \<Rightarrow> ''robots_disallow'' | FetchError \<Rightarrow> ''fetch_error''
      | HttpError n \<Rightarrow> ''http_'' @ str_int n | _ \<Rightarrow> [])"

text \<open>
  A concrete environment for the scenarios below: the hash prefixes its input with
  \<open>sha-\<close>, the path of a URL is what follows \<open>https://www.tradingview.com\<close>, the sidecar
  text is the checksum itself, and the network and the clock are given.
\<close>

definition demo_env :: "(nat \<Rightarrow> string \<Rightarrow> fetch_outcome) \<Rightarrow> (nat \<Rightarrow> string) \<Rightarrow> env" where
  "demo_env net clock =
     \<lparr> sha256_hex = (\<lambda>b. ''sha-'' @ b),
       url_path = drop 27,
       fetch_bytes = net,
       strftime_now = clock,
       utc_now_iso = (\<lambda>n. ''2026-01-09T13:56:01Z''),
       json_dump = checksum,
       json_checksum = (\<lambda>text. Some text) \<rparr>"

definition demo_item :: "string \<Rightarrow> string \<Rightarrow> InventoryItem" where
  "demo_item kind url =
     \<lparr> i_canonical_url = url, i_doc_type = kind, i_pine_version = ''v6'',
       source_entry_point = ''https://www.tradingview.com/pine-script-docs'',
       discovered_at = ''2026-01-09T13:00:00Z'', discovery_method = ''sitemap'',
       segmentation_strategy = None \<rparr>"

definition page :: "int \<Rightarrow> string \<Rightarrow> fetch_outcome" where
  "page code body =
     Returns \<lparr> f_status = code, content_type = Some ''text/html'', content_encoding = None,
               raw_bytes = body, decoded_length = Some (int (length body)) \<rparr>"

definition demo_params :: params where
  "demo_params =
     \<lparr> output_root = ''raw'', run_id = ''20260109T135601Z'', retries = 2,
       disallow_paths = [''/accounts/''] \<rparr>"

definition empty_world :: world where
  "empty_world =
     \<lparr> fs = Map.empty, run_log = [], requests = [], ticks = 0, attempted = 0, written = 0,
       skipped = 0, failed_guide = 0, failed_reference = 0 \<rparr>"

definition url_a :: string where "url_a = ''https://www.tradingview.com/a''"
definition url_b :: string where "url_b = ''https://www.tradingview.com/b''"
definition url_ref :: string where "url_ref = ''https://www.tradingview.com/ref''"

definition ref_down :: "nat \<Rightarrow> string \<Rightarrow> fetch_outcome" where
  \<comment> \<open>every request for the reference page raises, every other page is served\<close>
  "ref_down n url = (if url = url_ref then Raises else page 200 ''<p>ok</p>'')"

text \<open>
  The paths \<^verbatim>\<open>acquire_inventory\<close> computes first for an item under an output root,
  whether the store holds an artifact and a sidecar with a matching checksum at these
  paths (what \<^verbatim>\<open>existing_checksum\<close> tests), and whether the store is consistent for the
  item: it holds neither file of the item, or a matching pair.
\<close>

definition base_paths :: "env \<Rightarrow> string \<Rightarrow> InventoryItem \<Rightarrow> string \<times> string" where
  "base_paths E out_root item = artifact_paths E out_root item None"

definition matched :: "env \<Rightarrow> string \<Rightarrow> (string \<rightharpoonup> string) \<Rightarrow> InventoryItem \<Rightarrow> bool" where
  "matched E out_root files item =
     (existing_checksum E files (snd (base_paths E out_root item))
        (fst (base_paths E out_root item)) \<noteq> None)"

definition consistent_for ::
  "env \<Rightarrow> string \<Rightarrow> (string \<rightharpoonup> string) \<Rightarrow> InventoryItem \<Rightarrow> bool" where
  "consistent_for E out_root files item =
     (files (fst (base_paths E out_root item)) = None
        \<and> files (snd (base_paths E out_root item)) = None
      \<or> matched E out_root files item)"

text \<open>
  What the proofs need of the JSON codec and of the hash: reading a sidecar back gives
  the checksum that was dumped, and a hex digest is never the empty string.
\<close>

definition codec_ok :: "env \<Rightarrow> bool" where
  "codec_ok E = ((\<forall>m. json_checksum E (json_dump E m) = Some (checksum m))
               \<and> (\<forall>b. sha256_hex E b \<noteq> []))"

text \<open>
  Further scenarios: the arguments of a run, two texts of \<^verbatim>\<open>robots.txt\<close>, networks,
  clocks and stores.
\<close>

definition demo_args :: run_args where
  "demo_args =
     \<lparr> arg_output_root = ''raw'',
       arg_run_log_path = ''artifacts/acquisition_runs/20260109T135601Z.jsonl'',
       arg_retries = 2 \<rparr>"

definition demo_robots :: string where
  "demo_robots = ''User-agent: *\<newline>Disallow: /accounts/\<newline>''"

definition strict_robots :: string where
  "strict_robots = ''User-agent: *\<newline>Disallow: /a\<newline>''"

definition with_robots ::
  "string \<Rightarrow> (nat \<Rightarrow> string \<Rightarrow> fetch_outcome) \<Rightarrow> nat \<Rightarrow> string \<Rightarrow> fetch_outcome" where
  \<comment> \<open>a network that serves the given \<^verbatim>\<open>robots.txt\<close> and answers like \<open>net\<close> otherwise\<close>
  "with_robots body net n url =
     (if url = ''https://www.tradingview.com/robots.txt'' then page 200 body else net n url)"

definition serve :: "string \<Rightarrow> nat \<Rightarrow> string \<Rightarrow> fetch_outcome" where
  \<comment> \<open>every request is answered with status 200 and the same body\<close>
  "serve body n url = page 200 body"

definition serve_versions :: "nat \<Rightarrow> string \<Rightarrow> fetch_outcome" where
  \<comment> \<open>the first two requests of a run (the first two calls of \<^verbatim>\<open>fetch_bytes\<close>, numbered 0
      and 1) are answered with one body, every later request with another\<close>
  "serve_versions n url = page 200 (if n \<le> 1 then ''<p>v1</p>'' else ''<p>v2</p>'')"

definition at_second :: "string \<Rightarrow> nat \<Rightarrow> string" where
  \<comment> \<open>every reading of the clock falls in the same second\<close>
  "at_second t n = t"

definition minute_later :: "nat \<Rightarrow> string" where
  \<comment> \<open>the first two readings fall in one second, the later ones a minute after it\<close>
  "minute_later n = (if n < 2 then ''20260109T135601Z'' else ''20260109T135701Z'')"

definition raw_a :: string where
  "raw_a = ''raw/guide/v6/sha-https://www.tradingview.com/a.html''"

definition raw_a_1 :: string where
  "raw_a_1 = ''raw/guide/v6/sha-https://www.tradingview.com/a.20260109T135601Z.html''"

definition raw_a_2 :: string where
  "raw_a_2 = ''raw/guide/v6/sha-https://www.tradingview.com/a.20260109T135701Z.html''"

definition stored_world :: world where
  \<comment> \<open>the store holds the page of \<open>url_a\<close> and a sidecar with its checksum\<close>
  "stored_world =
     empty_world \<lparr> fs := [raw_a \<mapsto> ''<p>ok</p>'', raw_a @ ''.meta.json'' \<mapsto> ''sha-<p>ok</p>''] \<rparr>"

definition orphan_world :: world where
  \<comment> \<open>the store holds a page of \<open>url_a\<close> without its sidecar\<close>
  "orphan_world = empty_world \<lparr> fs := [raw_a \<mapsto> ''<p>old</p>''] \<rparr>"

section \<open>Theorems\<close>

subsection \<open>C1: drift severity and recommended action\<close>

lemma drift_severity_cases:
  "(drift_severity d e = ''none'') = (d = 0 \<and> \<not> e)"
  "(drift_severity d e = ''high'') = (d \<noteq> 0 \<and> \<bar>d\<bar> \<ge> 10)"
  "(drift_severity d e = ''medium'') = (d \<noteq> 0 \<and> \<bar>d\<bar> < 10)"
  "(drift_severity d e = ''low'') = (d = 0 \<and> e)"
  by (auto simp: drift_severity_def)

text \<open>
  C1. For every pair of manifests, the report's severity is \<open>none\<close> iff the anchor-count
  delta (candidate minus baseline) is zero and the environment is unchanged, \<open>high\<close> iff
  the delta is non-zero with absolute value at least 10, \<open>medium\<close> iff it is non-zero with
  absolute value below 10, \<open>low\<close> iff it is zero and the environment changed; the severity is
  always one of the four, and the recommended action is \<open>ignore\<close> exactly for \<open>none\<close>,
  \<open>manual_review\<close> exactly for \<open>low\<close>, \<open>resegment\<close> exactly for \<open>medium\<close> and
  \<open>block_pipeline\<close> exactly for \<open>high\<close>.
\<close>

theorem drift_policy:
  fixes baseline candidate :: manifest
  defines "r \<equiv> generate_drift_report baseline candidate"
      and "d \<equiv> anchor_count_total candidate - anchor_count_total baseline"
      and "e \<equiv> env_changed baseline candidate"
  shows "(r_drift_severity r = ''none'') = (d = 0 \<and> \<not> e)
       \<and> (r_drift_severity r = ''high'') = (d \<noteq> 0 \<and> \<bar>d\<bar> \<ge> 10)
       \<and> (r_drift_severity r = ''medium'') = (d \<noteq> 0 \<and> \<bar>d\<bar> < 10)
       \<and> (r_drift_severity r = ''low'') = (d = 0 \<and> e)
       \<and> r_drift_severity r \<in> {''none'', ''low'', ''medium'', ''high''}
       \<and> (recommended_action r = ''ignore'') = (r_drift_severity r = ''none'')
       \<and> (recommended_action r = ''manual_review'') = (r_drift_severity r = ''low'')
       \<and> (recommended_action r = ''resegment'') = (r_drift_severity r = ''medium'')
       \<and> (recommended_action r = ''block_pipeline'') = (r_drift_severity r = ''high'')"
proof -
  have sev: "r_drift_severity r = drift_severity d e"
    and act: "recommended_action r = drift_recommended_action (drift_severity d e)"
    by (simp_all add: r_def d_def e_def generate_drift_report_def Let_def)
  have dom: "drift_severity d e \<in> {''none'', ''low'', ''medium'', ''high''}"
    by (simp add: drift_severity_def)
  have a: "(drift_recommended_action (drift_severity d e) = ''ignore'')
             = (drift_severity d e = ''none'')"
    "(drift_recommended_action (drift_severity d e) = ''manual_review'')
             = (drift_severity d e = ''low'')"
    "(drift_recommended_action (drift_severity d e) = ''resegment'')
             = (drift_severity d e = ''medium'')"
    "(drift_recommended_action (drift_severity d e) = ''block_pipeline'')
             = (drift_severity d e = ''high'')"
    using dom by (auto simp: drift_recommended_action_def)
  show ?thesis
    unfolding sev act using dom a by (simp add: drift_severity_cases)
qed

text \<open>
  The literal scenario of the specification: baseline 500 anchors, candidate 488, same
  environment; the policy gives \<open>high\<close> and \<open>block_pipeline\<close>.
\<close>

theorem drift_policy_witness:
  "r_drift_severity (generate_drift_report (sample_manifest ''r1'' 500 ''ua'')
       (sample_manifest ''r2'' 488 ''ua'')) = ''high''
   \<and> recommended_action (generate_drift_report (sample_manifest ''r1'' 500 ''ua'')
       (sample_manifest ''r2'' 488 ''ua'')) = ''block_pipeline''"
  using drift_policy [of "sample_manifest ''r1'' 500 ''ua''" "sample_manifest ''r2'' 488 ''ua''"]
  by (simp add: sample_manifest_def)

subsection \<open>The polling loop\<close>

lemma stabilize_result:
  "stabilize cfg ps st prev sc = Some (Inr (a, st', n)) \<Longrightarrow>
     (\<exists>ids scroll t. Poll ids scroll t \<in> set ps \<and> a = collect_anchor_ids ids \<and>
        ((n = [] \<and> stable_enough cfg (int (length a)) st')
         \<or> (n = ''render_timeout'' \<and> \<not> stable_enough cfg (int (length a)) st'
              \<and> t > of_int (max_wait_seconds cfg))))"
proof (induction ps arbitrary: st prev sc)
  case Nil
  then show ?case by simp
next
  case (Cons p ps)
  show ?case
  proof (cases p)
    case (PollRaises e)
    with Cons.prems show ?thesis by simp
  next
    case (Poll ids scroll t)
    let ?a = "collect_anchor_ids ids"
    let ?st = "if int (length ?a) = prev then st + 1 else 0"
    show ?thesis
    proof (cases "stable_enough cfg (int (length ?a)) ?st")
      case True
      with Cons.prems Poll show ?thesis by (auto simp: Let_def)
    next
      case ne: False
      with Cons.prems Poll have
        noscroll: "(if sc < max_scrolls cfg then scroll else None) = None"
        and nosleep: "\<not> stabilize_interval_seconds cfg < 0"
        by (auto simp: Let_def split: option.splits if_splits)
      show ?thesis
      proof (cases "t > of_int (max_wait_seconds cfg)")
        case True
        with ne noscroll nosleep Cons.prems Poll show ?thesis by (auto simp: Let_def)
      next
        case False
        with ne noscroll nosleep Cons.prems Poll obtain sc' where
          "stabilize cfg ps ?st (int (length ?a)) sc' = Some (Inr (a, st', n))"
          by (auto simp: Let_def)
        from Cons.IH [OF this] show ?thesis by auto
      qed
    qed
  qed
qed

lemma stabilize_returns:
  "\<forall>p \<in> set ps. \<exists>ids t. p = Poll ids None t \<Longrightarrow>
   \<exists>ids t. Poll ids None t \<in> set ps \<and> t > of_int (max_wait_seconds cfg) \<Longrightarrow>
   \<not> stabilize_interval_seconds cfg < 0 \<Longrightarrow>
   \<exists>r. stabilize cfg ps st prev sc = Some (Inr r)"
proof (induction ps arbitrary: st prev sc)
  case Nil
  then show ?case by simp
next
  case (Cons p ps)
  from Cons.prems(1) obtain ids t where Poll: "p = Poll ids None t" by auto
  let ?a = "collect_anchor_ids ids"
  let ?st = "if int (length ?a) = prev then st + 1 else 0"
  show ?case
  proof (cases "stable_enough cfg (int (length ?a)) ?st \<or> t > of_int (max_wait_seconds cfg)")
    case True
    with Poll Cons.prems(3) show ?thesis by (auto simp: Let_def)
  next
    case False
    with Cons.prems(2) Poll
    have ex: "\<exists>ids t. Poll ids None t \<in> set ps \<and> t > of_int (max_wait_seconds cfg)"
      by auto
    from Cons.prems(1) have all: "\<forall>p \<in> set ps. \<exists>ids t. p = Poll ids None t" by simp
    from False Poll Cons.prems(3) Cons.IH [OF all ex Cons.prems(3)] show ?thesis
      by (auto simp: Let_def)
  qed
qed

lemma render_reference_Inr:
  assumes "render_reference url cfg sess = Some (Inr r)"
  obtains st where
    "stabilize cfg (polls sess) 0 (- 1) 0 = Some (Inr (anchor_ids r, st, res_notes r))"
    "anchor_counts_by_prefix r = anchor_prefix_counts (anchor_ids r)"
    "status r = (if res_notes r \<noteq> [] then ''failed''
                 else if stable_enough cfg (int (length (anchor_ids r))) st
                 then ''complete'' else ''partial'')"
  using assms unfolding render_reference_def
  by (auto simp: Let_def split: option.splits sum.splits if_splits)

lemma render_reference_raises:
  "goto_error sess = Some e \<Longrightarrow> render_reference url cfg sess = Some (Inl e)"
  "goto_error sess = None \<Longrightarrow> stabilize cfg (polls sess) 0 (- 1) 0 = Some (Inl e) \<Longrightarrow>
     render_reference url cfg sess = Some (Inl e)"
  "goto_error sess = None \<Longrightarrow> stabilize cfg (polls sess) 0 (- 1) 0 = Some (Inr res) \<Longrightarrow>
     \<not> post_render_delay_ms cfg < 0 \<Longrightarrow> page_content sess = Inr content \<Longrightarrow>
     session_browser_version sess = Inl e \<Longrightarrow>
     render_reference url cfg sess = Some (Inl e)"
  by (simp_all add: render_reference_def split: prod.splits)

lemma render_never_partial:
  assumes "render_reference url cfg sess = Some (Inr r)"
  shows "status r = ''complete'' \<and> res_notes r = []
       \<or> status r = ''failed'' \<and> res_notes r = ''render_timeout''"
proof -
  from assms obtain st where
    st: "stabilize cfg (polls sess) 0 (- 1) 0 = Some (Inr (anchor_ids r, st, res_notes r))"
    and status: "status r = (if res_notes r \<noteq> [] then ''failed''
                 else if stable_enough cfg (int (length (anchor_ids r))) st
                 then ''complete'' else ''partial'')"
    by (rule render_reference_Inr)
  from stabilize_result [OF st] status show ?thesis by auto
qed

lemma timeout_session_run:
  "render_reference REFERENCE_URL default_config timeout_session = Some (Inr timeout_result)"
  by (simp add: render_reference_def timeout_session_def timeout_result_def default_config_def
      collect_anchor_ids_def matches_any_prefix_def ANCHOR_PREFIXES_def stable_enough_def
      anchor_prefix_counts_def first_matching_prefix_def increment_def Let_def)

subsection \<open>C4: outcome status of a render\<close>

text \<open>
  C4. With the default configuration (threshold 200, three stable polls, 120 seconds) the
  page shows one anchor and the second poll is read 121 seconds after the start, so the
  global timeout elapses before the threshold-and-stability condition holds. When the
  calls after the loop return, the render returns status \<open>failed\<close> with notes
  \<open>render_timeout\<close>, not \<open>partial\<close>; when \<^verbatim>\<open>browser.version()\<close> raises, the exception
  leaves \<^verbatim>\<open>render_reference\<close> and there is no outcome, so no status \<open>failed\<close> and no notes.
  By \<open>render_never_partial\<close> no render returns \<open>partial\<close>: the loop is left either with
  the condition true or through the timeout, which sets the notes, and set notes
  override the status.
\<close>

theorem render_timeout_is_failed:
  "render_reference REFERENCE_URL default_config timeout_session =
     Some (Inr \<lparr> html = ''<html></html>'',
       anchor_ids = [''fun_abs''],
       anchor_counts_by_prefix =
         [(''var_'', 0), (''fun_'', 1), (''const_'', 0), (''type_'', 0), (''kw_'', 0),
          (''op_'', 0), (''an_'', 0)],
       browser_name = ''chromium'',
       browser_version = ''120.0'',
       status = ''failed'',
       res_notes = ''render_timeout'' \<rparr>)
   \<and> render_reference REFERENCE_URL default_config version_property_session
       = Some (Inl ''TypeError'')"
  by (simp add: render_reference_def timeout_session_def version_property_session_def
      default_config_def collect_anchor_ids_def matches_any_prefix_def ANCHOR_PREFIXES_def
      stable_enough_def anchor_prefix_counts_def first_matching_prefix_def increment_def
      Let_def)

subsection \<open>C9: the total anchor count is the sum of the per-prefix counts\<close>

lemma increment_keys: "map fst (increment counts k) = map fst counts"
  by (induction counts) (auto simp: increment_def)

lemma increment_absent: "k \<notin> set (map fst counts) \<Longrightarrow> increment counts k = counts"
  by (induction counts) (auto simp: increment_def)

lemma increment_sum:
  "distinct (map fst counts) \<Longrightarrow> k \<in> set (map fst counts) \<Longrightarrow>
   sum_list (map snd (increment counts k)) = sum_list (map snd counts) + 1"
proof (induction counts)
  case Nil
  then show ?case by simp
next
  case (Cons c cs)
  obtain p v where c: "c = (p, v)" by (cases c)
  show ?case
  proof (cases "p = k")
    case True
    with Cons.prems c have "k \<notin> set (map fst cs)" by auto
    then have "increment cs k = cs" by (rule increment_absent)
    with True c show ?thesis by (simp add: increment_def)
  next
    case False
    with Cons c show ?thesis by (auto simp: increment_def)
  qed
qed

lemma increment_lookup:
  "map_of (increment counts k) p =
     (if p = k then map_option (\<lambda>c. c + 1) (map_of counts p) else map_of counts p)"
  by (induction counts) (auto simp: increment_def)

lemma first_matching_prefix_Some:
  "matches_any_prefix a \<Longrightarrow>
   \<exists>p. first_matching_prefix a = Some p \<and> p \<in> set ANCHOR_PREFIXES \<and> prefix p a"
  unfolding matches_any_prefix_def first_matching_prefix_def list_ex_iff
  by (cases "find (\<lambda>p. prefix p a) ANCHOR_PREFIXES") (auto simp: find_None_iff find_Some_iff)

lemma distinct_ANCHOR_PREFIXES: "distinct ANCHOR_PREFIXES"
  by (simp add: ANCHOR_PREFIXES_def)

lemma count_anchor_ids_keys: "map fst (count_anchor_ids counts ids) = map fst counts"
  by (induction ids arbitrary: counts) (auto simp: increment_keys split: option.splits)

lemma count_anchor_ids_sum:
  "map fst counts = ANCHOR_PREFIXES \<Longrightarrow> \<forall>a \<in> set ids. matches_any_prefix a \<Longrightarrow>
   sum_list (map snd (count_anchor_ids counts ids)) = sum_list (map snd counts) + int (length ids)"
proof (induction ids arbitrary: counts)
  case Nil
  then show ?case by simp
next
  case (Cons a ids)
  from Cons.prems(2) obtain p where
    p: "first_matching_prefix a = Some p" "p \<in> set ANCHOR_PREFIXES"
    using first_matching_prefix_Some by fastforce
  have k: "map fst (increment counts p) = ANCHOR_PREFIXES"
    by (simp add: increment_keys Cons.prems(1))
  have "sum_list (map snd (increment counts p)) = sum_list (map snd counts) + 1"
    using increment_sum [of counts p] p(2) Cons.prems(1) distinct_ANCHOR_PREFIXES by simp
  with Cons.IH [OF k] Cons.prems(2) p(1) show ?case by simp
qed

lemma count_anchor_ids_lookup:
  "map_of counts p = Some c \<Longrightarrow>
   map_of (count_anchor_ids counts ids) p =
     Some (c + int (length (filter (\<lambda>a. first_matching_prefix a = Some p) ids)))"
proof (induction ids arbitrary: counts c)
  case Nil
  then show ?case by simp
next
  case (Cons a ids)
  show ?case
  proof (cases "first_matching_prefix a")
    case None
    with Cons show ?thesis by simp
  next
    case (Some q)
    have "map_of (increment counts q) p = Some (if p = q then c + 1 else c)"
      using Cons.prems by (auto simp: increment_lookup)
    from Cons.IH [OF this] Some show ?thesis by auto
  qed
qed

lemma anchor_prefix_counts_total:
  "\<forall>a \<in> set ids. matches_any_prefix a \<Longrightarrow>
   sum_list (map snd (anchor_prefix_counts ids)) = int (length ids)"
  unfolding anchor_prefix_counts_def
  by (simp add: count_anchor_ids_sum comp_def)

lemma anchor_prefix_counts_keys: "map fst (anchor_prefix_counts ids) = ANCHOR_PREFIXES"
  unfolding anchor_prefix_counts_def by (simp add: count_anchor_ids_keys comp_def)

lemma anchor_prefix_counts_lookup:
  assumes "p \<in> set ANCHOR_PREFIXES"
  shows "map_of (anchor_prefix_counts ids) p =
     Some (int (length (filter (\<lambda>a. first_matching_prefix a = Some p) ids)))"
proof -
  have "map_of (map (\<lambda>p. (p, 0::int)) ANCHOR_PREFIXES) p = Some 0"
    using assms by (simp add: map_of_map_restrict)
  from count_anchor_ids_lookup [OF this] show ?thesis
    by (simp add: anchor_prefix_counts_def)
qed

lemma collect_anchor_ids_match: "\<forall>a \<in> set (collect_anchor_ids ids). matches_any_prefix a"
  by (simp add: collect_anchor_ids_def)

text \<open>
  C9. In every manifest produced by a render run, the keys of \<open>anchor_counts_by_prefix\<close>
  are the seven fixed prefixes and \<open>anchor_count_total\<close> is the sum of its values: every
  collected anchor id has a first matching prefix among the seven, and the value of each
  prefix is the number of collected ids whose first matching prefix it is.
\<close>

theorem manifest_anchor_total:
  assumes "render_and_manifest sha now sess rid = Some (Inr m)"
  shows "map fst (m_anchor_counts_by_prefix m) = ANCHOR_PREFIXES
     \<and> anchor_count_total m = sum_list (map snd (m_anchor_counts_by_prefix m))
     \<and> anchor_count_total m = (\<Sum>p\<leftarrow>ANCHOR_PREFIXES. dict_get_or (m_anchor_counts_by_prefix m) p 0)
     \<and> (\<exists>r. render_reference REFERENCE_URL default_config sess = Some (Inr r)
          \<and> anchor_count_total m = int (length (anchor_ids r))
          \<and> (\<forall>a \<in> set (anchor_ids r). \<exists>p \<in> set ANCHOR_PREFIXES.
                first_matching_prefix a = Some p)
          \<and> (\<forall>p \<in> set ANCHOR_PREFIXES. dict_get_or (m_anchor_counts_by_prefix m) p 0 =
                int (length (filter (\<lambda>a. first_matching_prefix a = Some p) (anchor_ids r)))))"
proof -
  from assms obtain r where
    run: "render_reference REFERENCE_URL default_config sess = Some (Inr r)"
    and total: "anchor_count_total m = int (length (anchor_ids r))"
    and counts: "m_anchor_counts_by_prefix m = anchor_counts_by_prefix r"
    unfolding render_and_manifest_def by (auto split: option.splits sum.splits)
  from run obtain st where
    st: "stabilize default_config (polls sess) 0 (- 1) 0
           = Some (Inr (anchor_ids r, st, res_notes r))"
    and apc: "anchor_counts_by_prefix r = anchor_prefix_counts (anchor_ids r)"
    by (rule render_reference_Inr)
  from stabilize_result [OF st] have ids: "\<forall>a \<in> set (anchor_ids r). matches_any_prefix a"
    using collect_anchor_ids_match by auto
  have keys: "map fst (m_anchor_counts_by_prefix m) = ANCHOR_PREFIXES"
    by (simp add: counts apc anchor_prefix_counts_keys)
  have sum: "anchor_count_total m = sum_list (map snd (m_anchor_counts_by_prefix m))"
    by (simp add: counts apc total anchor_prefix_counts_total [OF ids])
  have lookup: "\<forall>p \<in> set ANCHOR_PREFIXES. dict_get_or (m_anchor_counts_by_prefix m) p 0 =
      int (length (filter (\<lambda>a. first_matching_prefix a = Some p) (anchor_ids r)))"
    by (simp add: counts apc dict_get_or_def anchor_prefix_counts_lookup)
  have first: "\<forall>a \<in> set (anchor_ids r). \<exists>p \<in> set ANCHOR_PREFIXES.
      first_matching_prefix a = Some p"
    using ids first_matching_prefix_Some by blast
  have "map (\<lambda>p. dict_get_or kv p 0) (map fst kv) = map snd kv"
    if "distinct (map fst kv)" for kv :: "(string \<times> int) list"
    using that by (induction kv) (auto simp: dict_get_or_def image_iff)
  from this [of "m_anchor_counts_by_prefix m"] keys distinct_ANCHOR_PREFIXES
  have "(\<Sum>p\<leftarrow>ANCHOR_PREFIXES. dict_get_or (m_anchor_counts_by_prefix m) p 0)
      = sum_list (map snd (m_anchor_counts_by_prefix m))"
    by simp
  with keys sum lookup first run total show ?thesis by auto
qed

theorem manifest_anchor_total_witness:
  "render_and_manifest (\<lambda>b. b) ''2026-01-09T13:58:03Z'' timeout_session ''20260109T135601Z''
     = Some (Inr timeout_manifest)
   \<and> anchor_count_total timeout_manifest
       = sum_list (map snd (m_anchor_counts_by_prefix timeout_manifest))"
proof -
  have run: "render_and_manifest (\<lambda>b. b) ''2026-01-09T13:58:03Z'' timeout_session
      ''20260109T135601Z'' = Some (Inr timeout_manifest)"
    by (simp add: render_and_manifest_def timeout_session_run,
        simp add: timeout_result_def timeout_manifest_def default_config_def REFERENCE_URL_def)
  from manifest_anchor_total [OF run] run show ?thesis by simp
qed

subsection \<open>The anchor loop of the rendered-reference segmenter\<close>

lemma segment_anchors_Inr:
  "segment_anchors cu r sa anchors idx seen esn eraw segs = Inr (out, q) \<Longrightarrow>
   \<exists>new. out = segs @ new
     \<and> map s_anchor_id new = map tag_id anchors
     \<and> distinct (map tag_id anchors) \<and> set (map tag_id anchors) \<inter> seen = {}
     \<and> segment_count q = int (length out)
     \<and> empty_raw_html q = eraw + int (length (filter (\<lambda>s. s_raw_html s = []) new))
     \<and> empty_symbol_names q = esn + int (length (filter (\<lambda>s. s_symbol_name s = []) new))"
proof (induction anchors arbitrary: idx seen esn eraw segs)
  case Nil
  then show ?case by auto
next
  case (Cons a anchors)
  from Cons.prems have fresh: "tag_id a \<notin> seen"
    by (auto simp: Let_def split: if_splits)
  define seg where "seg = \<lparr> s_canonical_url = cu, s_doc_type = ''reference'',
      s_pine_version = ''v6'', s_run_id = r, s_source_artifact_id = sa,
      s_anchor_id = tag_id a, s_symbol_type = infer_symbol_type a (tag_id a),
      s_symbol_name = infer_symbol_name a, s_segment_order = idx,
      s_raw_html = anchor_raw_html a, s_segment_id = sa @ '':'' @ tag_id a \<rparr>"
  let ?esn = "if infer_symbol_name a = [] then esn + 1 else esn"
  let ?eraw = "if anchor_raw_html a = [] then eraw + 1 else eraw"
  from Cons.prems fresh have
    "segment_anchors cu r sa anchors (idx + 1) (insert (tag_id a) seen) ?esn ?eraw
       (segs @ [seg]) = Inr (out, q)"
    by (simp add: Let_def seg_def)
  from Cons.IH [OF this] obtain new where new:
    "out = (segs @ [seg]) @ new"
    "map s_anchor_id new = map tag_id anchors"
    "distinct (map tag_id anchors)"
    "set (map tag_id anchors) \<inter> insert (tag_id a) seen = {}"
    "segment_count q = int (length out)"
    "empty_raw_html q = ?eraw + int (length (filter (\<lambda>s. s_raw_html s = []) new))"
    "empty_symbol_names q = ?esn + int (length (filter (\<lambda>s. s_symbol_name s = []) new))"
    by blast
  have sel: "s_anchor_id seg = tag_id a" "s_raw_html seg = anchor_raw_html a"
    "s_symbol_name seg = infer_symbol_name a"
    by (simp_all add: seg_def)
  show ?case
  proof (intro exI [of _ "seg # new"] conjI)
    show "out = segs @ seg # new" using new(1) by simp
    show "map s_anchor_id (seg # new) = map tag_id (a # anchors)"
      using new(2) sel by simp
    show "distinct (map tag_id (a # anchors))" using new(3,4) by auto
    show "set (map tag_id (a # anchors)) \<inter> seen = {}" using new(4) fresh by auto
    show "segment_count q = int (length out)" by (rule new(5))
    show "empty_raw_html q = eraw + int (length (filter (\<lambda>s. s_raw_html s = []) (seg # new)))"
      using new(6) sel by simp
    show "empty_symbol_names q
        = esn + int (length (filter (\<lambda>s. s_symbol_name s = []) (seg # new)))"
      using new(7) sel by simp
  qed
qed

lemma segment_anchors_Inl:
  "segment_anchors cu r sa anchors idx seen esn eraw segs = Inl e \<Longrightarrow>
   e = ''duplicate_anchor_id''"
proof (induction anchors arbitrary: idx seen esn eraw segs)
  case Nil
  then show ?case by simp
next
  case (Cons a anchors)
  show ?case
  proof (cases "tag_id a \<in> seen")
    case True
    with Cons.prems show ?thesis by (simp add: Let_def)
  next
    case False
    with Cons.prems show ?thesis by (auto simp: Let_def dest: Cons.IH)
  qed
qed

lemma segment_anchors_duplicate:
  "\<not> distinct (map tag_id anchors) \<or> set (map tag_id anchors) \<inter> seen \<noteq> {} \<Longrightarrow>
   segment_anchors cu r sa anchors idx seen esn eraw segs = Inl ''duplicate_anchor_id''"
proof (cases "segment_anchors cu r sa anchors idx seen esn eraw segs")
  case (Inl e)
  then show ?thesis using segment_anchors_Inl by blast
next
  case (Inr res)
  assume bad: "\<not> distinct (map tag_id anchors) \<or> set (map tag_id anchors) \<inter> seen \<noteq> {}"
  obtain out q where "res = (out, q)" by (cases res)
  with Inr segment_anchors_Inr [of cu r sa anchors idx seen esn eraw segs out q] bad
  show ?thesis by blast
qed

lemma segment_reference_html_Inl:
  "segment_reference_html doc cu r sa = Inl e \<Longrightarrow>
   e \<in> {''reference_container_missing'', ''reference_no_anchors'', ''duplicate_anchor_id''}"
  unfolding segment_reference_html_def
  by (auto simp: Let_def split: option.splits if_splits dest: segment_anchors_Inl)

lemma segment_reference_html_Inr:
  assumes "segment_reference_html doc cu r sa = Inr (segs, q)"
  shows "segment_count q = int (length segs)"
    and "empty_raw_html q = int (length (filter (\<lambda>s. s_raw_html s = []) segs))"
    and "empty_symbol_names q = int (length (filter (\<lambda>s. s_symbol_name s = []) segs))"
    and "distinct (map s_anchor_id segs)"
proof -
  from assms obtain tags where
    run: "segment_anchors cu r sa (find_anchor_elements tags) 1 {} 0 0 [] = Inr (segs, q)"
    unfolding segment_reference_html_def
    by (auto simp: Let_def split: option.splits if_splits)
  from segment_anchors_Inr [OF run]
  show "segment_count q = int (length segs)"
    and "empty_raw_html q = int (length (filter (\<lambda>s. s_raw_html s = []) segs))"
    and "empty_symbol_names q = int (length (filter (\<lambda>s. s_symbol_name s = []) segs))"
    and "distinct (map s_anchor_id segs)"
    by auto
qed

lemma abs_tag_raw_html:
  \<open>anchor_raw_html (abs_tag ''abs()'') = ''<div id="fun_abs">abs()</div>''\<close>
  by (simp add: anchor_raw_html_def abs_tag_def serialize_nodes_def py_strip_def py_isspace_def)

lemma abs_tag_raw_html2:
  \<open>anchor_raw_html (abs_tag ''abs(x)'') = ''<div id="fun_abs">abs(x)</div>''\<close>
  by (simp add: anchor_raw_html_def abs_tag_def serialize_nodes_def py_strip_def py_isspace_def)

lemma fun_abs_matches: "matches_any_prefix ''fun_abs''"
  by (simp add: matches_any_prefix_def ANCHOR_PREFIXES_def)

subsection \<open>C3: the quality gate of anchor-based segmentation\<close>

text \<open>
  C3 as stated (segmentation either produces exactly N segments or aborts with one of
  \<open>segment_count_mismatch\<close>, \<open>empty_symbol_names\<close>, \<open>empty_raw_html\<close>) fails: a complete
  manifest with N = 2 and a document with two anchors of the same id aborts with the
  \<^verbatim>\<open>ValueError\<close> \<open>duplicate_anchor_id\<close>.
\<close>

theorem segment_reference_abort_counterexample:
  "segment_reference ''r1'' (sample_manifest ''r1'' 2 ''ua'') duplicate_doc empty_store
     = (Some (ValueError ''duplicate_anchor_id''), empty_store)"
  by (simp add: segment_reference_def sample_manifest_def segment_reference_html_def
      duplicate_doc_def find_anchor_elements_def abs_tag_def fun_abs_matches Let_def)

text \<open>
  C3, amended. For every manifest, document and store, \<^verbatim>\<open>segment_reference\<close> either ends
  normally, and then the manifest's status is \<open>complete\<close> and exactly
  \<open>anchor_count_total\<close> segments were appended to the segment file, each with non-empty
  serialized content and at most \<open>max(5, anchor_count_total div 10)\<close> of them with an
  empty symbol name; or it aborts with one of the reasons \<open>render_incomplete\<close>,
  \<open>reference_container_missing\<close>, \<open>reference_no_anchors\<close>, \<open>duplicate_anchor_id\<close>,
  \<open>segment_count_mismatch\<close>, \<open>empty_symbol_names\<close>, \<open>empty_raw_html\<close>, and then the segment
  file is unchanged. On a manifest whose status is not \<open>complete\<close> it aborts with
  \<open>render_incomplete\<close> and changes nothing.
\<close>

theorem segment_reference_gate:
  assumes "segment_reference rid m doc store = (res, store')"
  shows "(res = None \<longrightarrow>
            m_status m = ''complete''
          \<and> (\<exists>segs. segments_file store' = segments_file store @ segs
                \<and> int (length segs) = anchor_count_total m
                \<and> (\<forall>s \<in> set segs. s_raw_html s \<noteq> [])
                \<and> int (length (filter (\<lambda>s. s_symbol_name s = []) segs))
                      \<le> max 5 (anchor_count_total m div 10)))
       \<and> (res \<noteq> None \<longrightarrow>
            segments_file store' = segments_file store
          \<and> res \<in> Some ` {SystemExit ''render_incomplete'',
                ValueError ''reference_container_missing'', ValueError ''reference_no_anchors'',
                ValueError ''duplicate_anchor_id'', SystemExit ''segment_count_mismatch'',
                SystemExit ''empty_symbol_names'', SystemExit ''empty_raw_html''})
       \<and> (m_status m \<noteq> ''complete'' \<longrightarrow>
            res = Some (SystemExit ''render_incomplete'') \<and> store' = store)"
proof (cases "m_status m = ''complete''")
  case False
  with assms show ?thesis by (auto simp: segment_reference_def)
next
  case complete: True
  show ?thesis
  proof (cases "segment_reference_html doc (m_canonical_url m) rid (artifact_checksum_sha256 m)")
    case (Inl e)
    with assms complete have "res = Some (ValueError e)" "store' = store"
      by (auto simp: segment_reference_def)
    with segment_reference_html_Inl [OF Inl] complete show ?thesis by auto
  next
    case (Inr sq)
    obtain segs q where sq: "sq = (segs, q)" by (cases sq)
    note facts = segment_reference_html_Inr [OF Inr [unfolded sq]]
    show ?thesis
    proof (cases res)
      case None
      with assms complete Inr sq have
        ok: "segment_count q = anchor_count_total m"
          "\<not> empty_symbol_names q > max 5 (anchor_count_total m div 10)"
          "\<not> empty_raw_html q > 0"
        and out: "segments_file store' = segments_file store @ segs"
        by (auto simp: segment_reference_def Let_def write_jsonl_def split: if_splits)
      from ok(3) facts(2) have "filter (\<lambda>s. s_raw_html s = []) segs = []" by simp
      then have nonempty: "\<forall>s \<in> set segs. s_raw_html s \<noteq> []"
        by (simp add: filter_empty_conv)
      from ok facts out nonempty None complete show ?thesis by auto
    next
      case (Some a)
      with assms complete Inr sq show ?thesis
        by (auto simp: segment_reference_def Let_def write_jsonl_def split: if_splits)
    qed
  qed
qed

theorem segment_reference_gate_witness:
  "fst (segment_reference ''r1'' (sample_manifest ''r1'' 1 ''ua'') single_doc empty_store) = None
   \<and> (\<exists>segs. segments_file
          (snd (segment_reference ''r1'' (sample_manifest ''r1'' 1 ''ua'') single_doc empty_store))
            = segments_file empty_store @ segs
        \<and> int (length segs) = 1
        \<and> (\<forall>s \<in> set segs. s_raw_html s \<noteq> []))"
proof -
  let ?run = "segment_reference ''r1'' (sample_manifest ''r1'' 1 ''ua'') single_doc empty_store"
  have none: "fst ?run = None"
    by (simp add: segment_reference_def sample_manifest_def segment_reference_html_def
        single_doc_def find_anchor_elements_def fun_abs_matches Let_def write_jsonl_def
        abs_tag_raw_html infer_symbol_name_def,
        simp add: abs_tag_def fun_abs_matches)
  have run: "?run = (None, snd ?run)"
    using none by (metis prod.collapse)
  have n: "anchor_count_total (sample_manifest ''r1'' 1 ''ua'') = 1"
    by (simp add: sample_manifest_def)
  from segment_reference_gate [OF run] none n show ?thesis
    by auto
qed

subsection \<open>C6: duplicate anchor ids\<close>

lemma segment_reference_html_duplicate:
  assumes "doc = Some tags" and "\<not> distinct (map tag_id (find_anchor_elements tags))"
  shows "segment_reference_html doc cu r sa = Inl ''duplicate_anchor_id''"
proof -
  from assms(2) have "find_anchor_elements tags \<noteq> []" by auto
  with assms show ?thesis
    by (simp add: segment_reference_html_def Let_def segment_anchors_duplicate)
qed

text \<open>
  C6. The segmenter of rendered references raises \<open>duplicate_anchor_id\<close> on the document
  with two anchors of id \<open>fun_abs\<close>; the segmenter of fetched references,
  \<^verbatim>\<open>parse_reference_segments\<close>, returns two segments for it, both with the segment id
  \<open>9f2c:fun_abs\<close>.
\<close>

theorem parse_reference_segments_duplicates:
  \<open>segment_reference_html duplicate_doc ''u'' ''r1'' ''9f2c'' = Inl ''duplicate_anchor_id''
   \<and> parse_reference_segments sample_artifact duplicate_doc =
     Inr [\<lparr> seg_source_artifact_id = ''9f2c'',
            seg_canonical_url = ''https://www.tradingview.com/pine-script-reference/v6'',
            seg_doc_type = ''reference'', seg_pine_version = ''v6'',
            seg_segment_id = ''9f2c:fun_abs'', seg_segment_type = ''reference_entry'',
            seg_segment_order = 1, seg_raw_html = ''<div id="fun_abs">abs()</div>'',
            seg_anchor_id = Some ''fun_abs'', seg_symbol_name = Some ''abs()'',
            seg_symbol_type = None \<rparr>,
          \<lparr> seg_source_artifact_id = ''9f2c'',
            seg_canonical_url = ''https://www.tradingview.com/pine-script-reference/v6'',
            seg_doc_type = ''reference'', seg_pine_version = ''v6'',
            seg_segment_id = ''9f2c:fun_abs'', seg_segment_type = ''reference_entry'',
            seg_segment_order = 2, seg_raw_html = ''<div id="fun_abs">abs(x)</div>'',
            seg_anchor_id = Some ''fun_abs'', seg_symbol_name = Some ''abs(x)'',
            seg_symbol_type = None \<rparr>]\<close>
proof
  show "segment_reference_html duplicate_doc ''u'' ''r1'' ''9f2c'' = Inl ''duplicate_anchor_id''"
    by (rule segment_reference_html_duplicate [of _ "[abs_tag ''abs()'', abs_tag ''abs(x)'']"])
       (simp_all add: duplicate_doc_def find_anchor_elements_def abs_tag_def fun_abs_matches)
next
  have raw: "serialize_nodes [tag_str (abs_tag b)] = anchor_raw_html (abs_tag b)" for b
    by (simp add: anchor_raw_html_def abs_tag_def)
  show \<open>parse_reference_segments sample_artifact duplicate_doc =
     Inr [\<lparr> seg_source_artifact_id = ''9f2c'',
            seg_canonical_url = ''https://www.tradingview.com/pine-script-reference/v6'',
            seg_doc_type = ''reference'', seg_pine_version = ''v6'',
            seg_segment_id = ''9f2c:fun_abs'', seg_segment_type = ''reference_entry'',
            seg_segment_order = 1, seg_raw_html = ''<div id="fun_abs">abs()</div>'',
            seg_anchor_id = Some ''fun_abs'', seg_symbol_name = Some ''abs()'',
            seg_symbol_type = None \<rparr>,
          \<lparr> seg_source_artifact_id = ''9f2c'',
            seg_canonical_url = ''https://www.tradingview.com/pine-script-reference/v6'',
            seg_doc_type = ''reference'', seg_pine_version = ''v6'',
            seg_segment_id = ''9f2c:fun_abs'', seg_segment_type = ''reference_entry'',
            seg_segment_order = 2, seg_raw_html = ''<div id="fun_abs">abs(x)</div>'',
            seg_anchor_id = Some ''fun_abs'', seg_symbol_name = Some ''abs(x)'',
            seg_symbol_type = None \<rparr>]\<close>
    by (simp add: parse_reference_segments_def duplicate_doc_def sample_artifact_def Let_def
        extract_symbol_type_def serialize_nodes_def py_strip_def py_isspace_def abs_tag_def)
qed

subsection \<open>C5: normalization aborts, and what it has written by then\<close>

lemma normalize_record_id:
  "normalize_record s = Inr rec \<Longrightarrow> reference_symbol_id rec = derive_id s"
  unfolding normalize_record_def
  by (auto simp: Let_def split: sum.splits if_splits)

lemma normalize_record_no_missing:
  "normalize_record s = Inr rec \<Longrightarrow>
     \<not> is_missing (j_symbol_name s) \<and> \<not> is_missing (j_canonical_url s)
   \<and> j_segment_order s \<noteq> None \<and> \<not> is_missing (j_raw_html s) \<and> \<not> is_missing (j_run_id s)
   \<and> \<not> is_missing (j_source_artifact_id s) \<and> \<not> is_missing (j_segment_id s)
   \<and> (\<exists>a. j_anchor_id s = Some a \<and> matches_any_prefix a)"
proof -
  assume run: "normalize_record s = Inr rec"
  then obtain ty where ty: "derive_symbol_type (j_anchor_id s) = Inr ty"
    unfolding normalize_record_def by (auto split: sum.splits)
  then obtain a p where a: "j_anchor_id s = Some a" "first_matching_prefix a = Some p"
    unfolding derive_symbol_type_def by (auto split: option.splits)
  then have "matches_any_prefix a"
    unfolding first_matching_prefix_def matches_any_prefix_def list_ex_iff
    by (auto simp: find_Some_iff)
  moreover from run ty have "missing_required rec = []"
    and rec: "rs_symbol_name rec = j_symbol_name s" "rs_canonical_url rec = j_canonical_url s"
      "rs_segment_order rec = j_segment_order s" "rs_raw_html rec = j_raw_html s"
      "rs_run_id rec = j_run_id s" "rs_source_artifact_id rec = j_source_artifact_id s"
      "rs_segment_id rec = j_segment_id s"
    unfolding normalize_record_def by (auto simp: Let_def split: if_splits)
  ultimately show ?thesis
    using a(1) unfolding missing_required_def
    by (auto split: if_splits)
qed

lemma segs_of_simps [simp]:
  "segs_of [] = []"
  "segs_of (Blank # ls) = segs_of ls"
  "segs_of (BadJson # ls) = segs_of ls"
  "segs_of (Seg s # ls) = s # segs_of ls"
  by (simp_all add: segs_of_def)

lemma normalize_lines_target:
  "normalize_lines ls seen sample cnt target = (res, out) \<Longrightarrow>
   \<exists>new. out = target @ new
     \<and> prefix (map reference_symbol_id new) (map derive_id (segs_of ls))
     \<and> distinct (map reference_symbol_id new)
     \<and> set (map reference_symbol_id new) \<inter> seen = {}
     \<and> (\<forall>n ids. res = Inr (n, ids) \<longrightarrow>
           n = cnt + int (length new) \<and> length new = length (segs_of ls)
         \<and> BadJson \<notin> set ls)"
proof (induction ls seen sample cnt target rule: normalize_lines.induct)
  case (1 seen_ids sample_ids cnt target)
  then show ?case by auto
next
  case (2 rest seen_ids sample_ids cnt target)
  then show ?case by auto
next
  case (3 rest seen_ids sample_ids cnt target)
  then show ?case by auto
next
  case (4 segment rest seen_ids sample_ids cnt target)
  show ?case
  proof (cases "normalize_record segment")
    case (Inl e)
    with 4(2) show ?thesis by auto
  next
    case (Inr rec)
    note id = normalize_record_id [OF Inr]
    show ?thesis
    proof (cases "reference_symbol_id rec \<in> seen_ids")
      case True
      with 4(2) Inr show ?thesis by auto
    next
      case False
      with 4(2) Inr have
        "normalize_lines rest (insert (reference_symbol_id rec) seen_ids)
           (if length sample_ids < 5 then sample_ids @ [reference_symbol_id rec]
            else sample_ids) (cnt + 1) (target @ [rec]) = (res, out)"
        by simp
      from 4(1) [OF Inr False this] obtain new where new:
        "out = (target @ [rec]) @ new"
        "prefix (map reference_symbol_id new) (map derive_id (segs_of rest))"
        "distinct (map reference_symbol_id new)"
        "set (map reference_symbol_id new) \<inter> insert (reference_symbol_id rec) seen_ids = {}"
        "\<forall>n ids. res = Inr (n, ids) \<longrightarrow>
           n = cnt + 1 + int (length new) \<and> length new = length (segs_of rest)
           \<and> BadJson \<notin> set rest"
        by blast
      show ?thesis
      proof (intro exI [of _ "rec # new"] conjI)
        show "out = target @ rec # new" using new(1) by simp
        show "prefix (map reference_symbol_id (rec # new))
            (map derive_id (segs_of (Seg segment # rest)))"
          using new(2) id by simp
        show "distinct (map reference_symbol_id (rec # new))" using new(3,4) by auto
        show "set (map reference_symbol_id (rec # new)) \<inter> seen_ids = {}"
          using new(4) False by auto
        show "\<forall>n ids. res = Inr (n, ids) \<longrightarrow>
           n = cnt + int (length (rec # new))
           \<and> length (rec # new) = length (segs_of (Seg segment # rest))
           \<and> BadJson \<notin> set (Seg segment # rest)"
          using new(5) by auto
      qed
    qed
  qed
qed

lemma normalize_lines_failure:
  "\<not> distinct (map derive_id (segs_of ls))
     \<or> set (map derive_id (segs_of ls)) \<inter> seen \<noteq> {}
     \<or> (\<exists>s \<in> set (segs_of ls). isl (normalize_record s))
   \<Longrightarrow> isl (fst (normalize_lines ls seen sample cnt target))"
proof (induction ls seen sample cnt target rule: normalize_lines.induct)
  case (1 seen_ids sample_ids cnt target)
  then show ?case by simp
next
  case (2 rest seen_ids sample_ids cnt target)
  then show ?case by simp
next
  case (3 rest seen_ids sample_ids cnt target)
  then show ?case by simp
next
  case (4 segment rest seen_ids sample_ids cnt target)
  show ?case
  proof (cases "normalize_record segment")
    case (Inl e)
    then show ?thesis by simp
  next
    case (Inr rec)
    note id = normalize_record_id [OF Inr]
    show ?thesis
    proof (cases "reference_symbol_id rec \<in> seen_ids")
      case True
      with Inr show ?thesis by simp
    next
      case False
      from 4(2) Inr id False have
        "\<not> distinct (map derive_id (segs_of rest))
         \<or> set (map derive_id (segs_of rest)) \<inter> insert (reference_symbol_id rec) seen_ids \<noteq> {}
         \<or> (\<exists>s \<in> set (segs_of rest). isl (normalize_record s))"
        by auto
      from 4(1) [OF Inr False this] Inr False show ?thesis by simp
    qed
  qed
qed

lemma normalize_lines_clean_prefix:
  "BadJson \<notin> set pre \<Longrightarrow> \<forall>x \<in> set (segs_of pre). \<not> isl (normalize_record x) \<Longrightarrow>
   distinct (map derive_id (segs_of pre)) \<Longrightarrow>
   set (map derive_id (segs_of pre)) \<inter> seen = {} \<Longrightarrow>
   \<exists>sample'. normalize_lines (pre @ rest) seen sample cnt target
     = normalize_lines rest (seen \<union> set (map derive_id (segs_of pre))) sample'
         (cnt + int (length (segs_of pre)))
         (target @ map (projr \<circ> normalize_record) (segs_of pre))"
proof (induction pre arbitrary: seen sample cnt target)
  case Nil
  then show ?case by auto
next
  case (Cons l pre)
  show ?case
  proof (cases l)
    case Blank
    with Cons.prems Cons.IH [of seen sample cnt target] show ?thesis by simp
  next
    case BadJson
    with Cons.prems show ?thesis by simp
  next
    case (Seg x)
    with Cons.prems(2) obtain rec where rec: "normalize_record x = Inr rec"
      by (cases "normalize_record x") auto
    note id = normalize_record_id [OF rec]
    from Cons.prems(4) Seg id have fresh: "reference_symbol_id rec \<notin> seen" by auto
    let ?sample = "if length sample < 5 then sample @ [reference_symbol_id rec] else sample"
    have step: "normalize_lines ((l # pre) @ rest) seen sample cnt target
        = normalize_lines (pre @ rest) (insert (reference_symbol_id rec) seen) ?sample
            (cnt + 1) (target @ [rec])"
      using Seg rec fresh by simp
    from Cons.prems Seg id have
      "BadJson \<notin> set pre" "\<forall>x \<in> set (segs_of pre). \<not> isl (normalize_record x)"
      "distinct (map derive_id (segs_of pre))"
      "set (map derive_id (segs_of pre)) \<inter> insert (reference_symbol_id rec) seen = {}"
      by auto
    from Cons.IH [OF this, of ?sample "cnt + 1" "target @ [rec]"] obtain sample' where
      "normalize_lines (pre @ rest) (insert (reference_symbol_id rec) seen) ?sample
            (cnt + 1) (target @ [rec])
       = normalize_lines rest
           (insert (reference_symbol_id rec) seen \<union> set (map derive_id (segs_of pre))) sample'
           (cnt + 1 + int (length (segs_of pre)))
           ((target @ [rec]) @ map (projr \<circ> normalize_record) (segs_of pre))"
      by blast
    with step Seg rec id have
      "normalize_lines ((l # pre) @ rest) seen sample cnt target
       = normalize_lines rest (seen \<union> set (map derive_id (segs_of (l # pre)))) sample'
           (cnt + int (length (segs_of (l # pre))))
           (target @ map (projr \<circ> normalize_record) (segs_of (l # pre)))"
      by (simp add: insert_commute Un_commute algebra_simps)
    then show ?thesis by blast
  qed
qed

lemma first_offender:
  "BadJson \<notin> set ls \<Longrightarrow>
   \<not> distinct (map derive_id (segs_of ls)) \<or> (\<exists>x \<in> set (segs_of ls). isl (normalize_record x)) \<Longrightarrow>
   \<exists>pre s post. ls = pre @ Seg s # post \<and> BadJson \<notin> set pre
     \<and> (\<forall>x \<in> set (segs_of pre). \<not> isl (normalize_record x))
     \<and> distinct (map derive_id (segs_of pre))
     \<and> (isl (normalize_record s) \<or> derive_id s \<in> set (map derive_id (segs_of pre)))"
proof (induction ls rule: rev_induct)
  case Nil
  then show ?case by simp
next
  case (snoc l ls)
  have segs: "segs_of (ls @ [l]) = segs_of ls @ segs_of [l]"
    by (simp add: segs_of_def)
  show ?case
  proof (cases "\<not> distinct (map derive_id (segs_of ls))
      \<or> (\<exists>x \<in> set (segs_of ls). isl (normalize_record x))")
    case True
    with snoc obtain pre s post where
      "ls = pre @ Seg s # post" "BadJson \<notin> set pre"
      "\<forall>x \<in> set (segs_of pre). \<not> isl (normalize_record x)"
      "distinct (map derive_id (segs_of pre))"
      "isl (normalize_record s) \<or> derive_id s \<in> set (map derive_id (segs_of pre))"
      by auto
    then have "ls @ [l] = pre @ Seg s # (post @ [l])" by simp
    with \<open>BadJson \<notin> set pre\<close> \<open>\<forall>x \<in> set (segs_of pre). \<not> isl (normalize_record x)\<close>
      \<open>distinct (map derive_id (segs_of pre))\<close>
      \<open>isl (normalize_record s) \<or> derive_id s \<in> set (map derive_id (segs_of pre))\<close>
    show ?thesis by blast
  next
    case clean: False
    from snoc.prems(2) clean segs obtain s where l: "l = Seg s"
      by (cases l) auto
    from snoc.prems(2) clean segs l
    have "isl (normalize_record s) \<or> derive_id s \<in> set (map derive_id (segs_of ls))"
      by auto
    moreover from snoc.prems(1) have "BadJson \<notin> set ls" by simp
    ultimately show ?thesis using clean l by blast
  qed
qed

text \<open>
  C5 as stated (an abort happens before any write and leaves the store unchanged) fails:
  for a batch of two copies of one valid segment and no output file, the run aborts on
  the second with \<open>duplicate_reference_symbol_id\<close>, and the output file then exists and
  holds the record of the first.
\<close>

theorem normalize_partial_write_counterexample:
  "normalize_reference_symbols [Seg abs_segment, Seg abs_segment]
      ''normalized/v6/reference_symbols.jsonl'' None
     = (Inl (ValueError ''duplicate_reference_symbol_id:9f2c:fun_abs''), Some [abs_record])"
  by (simp add: normalize_reference_symbols_def output_nonempty_def os_path_dirname_def
      normalize_record_def
      derive_symbol_type_def first_matching_prefix_def ANCHOR_PREFIXES_def rstrip_char_def
      abs_segment_def abs_record_def derive_id_def py_str_def missing_required_def
      is_missing_def SYMBOL_TYPES_def Let_def)

text \<open>
  C5, amended. (1) A run against a non-empty output file is refused with
  \<open>output_exists\<close>, and the file is unchanged. (2) Otherwise, a run whose output path
  has no directory part ends with \<^verbatim>\<open>FileNotFoundError\<close> and creates no file. (3) Otherwise,
  let the batch be \<open>pre @ Seg s # post\<close>, where \<open>pre\<close> has no line that is not JSON
  and its segments all pass validation and derive distinct identifiers. If \<open>s\<close> fails
  validation (a required field missing, an unknown anchor prefix), the run aborts
  with the error of \<open>s\<close>; if \<open>s\<close> passes validation and derives the identifier of a
  segment of \<open>pre\<close>, the run aborts with \<open>duplicate_reference_symbol_id\<close>. In both
  cases the output file then holds exactly the records of the segments of \<open>pre\<close>, in
  order, whose identifiers are the ones these segments derive. (4) Every batch without
  a non-JSON line in which two segments derive the same identifier or some segment
  fails validation has such a decomposition, and (5) every such batch, with or without
  non-JSON lines, makes the run abort.
\<close>

theorem normalize_reference_symbols_abort:
  fixes ls pre post :: "line list" and s :: segment_json and path :: string
    and out :: "reference_symbol list option"
  defines "recs \<equiv> map (projr \<circ> normalize_record) (segs_of pre)"
  defines "run \<equiv> normalize_reference_symbols (pre @ Seg s # post) path out"
  shows
    "(output_nonempty out \<longrightarrow>
        normalize_reference_symbols ls path out
          = (Inl (FileExistsError (''output_exists:'' @ path)), out))
   \<and> (\<not> output_nonempty out \<and> os_path_dirname path = [] \<longrightarrow>
        normalize_reference_symbols ls path out = (Inl (FileNotFoundError []), out))
   \<and> (\<not> output_nonempty out \<and> os_path_dirname path \<noteq> [] \<and> BadJson \<notin> set pre
        \<and> (\<forall>x \<in> set (segs_of pre). \<not> isl (normalize_record x))
        \<and> distinct (map derive_id (segs_of pre)) \<longrightarrow>
          (isl (normalize_record s) \<longrightarrow>
             run = (Inl (projl (normalize_record s)), Some recs))
        \<and> (\<not> isl (normalize_record s) \<and> derive_id s \<in> set (map derive_id (segs_of pre)) \<longrightarrow>
             run = (Inl (ValueError (''duplicate_reference_symbol_id:'' @ derive_id s)),
                    Some recs))
        \<and> map reference_symbol_id recs = map derive_id (segs_of pre))
   \<and> (BadJson \<notin> set ls
        \<and> (\<not> distinct (map derive_id (segs_of ls))
            \<or> (\<exists>x \<in> set (segs_of ls). isl (normalize_record x))) \<longrightarrow>
          (\<exists>pre' s' post'. ls = pre' @ Seg s' # post' \<and> BadJson \<notin> set pre'
             \<and> (\<forall>x \<in> set (segs_of pre'). \<not> isl (normalize_record x))
             \<and> distinct (map derive_id (segs_of pre'))
             \<and> (isl (normalize_record s')
                  \<or> derive_id s' \<in> set (map derive_id (segs_of pre')))))
   \<and> (\<not> output_nonempty out \<and> os_path_dirname path \<noteq> []
        \<and> (\<not> distinct (map derive_id (segs_of ls))
            \<or> (\<exists>x \<in> set (segs_of ls). isl (normalize_record x))) \<longrightarrow>
          isl (fst (normalize_reference_symbols ls path out)))"
proof (intro conjI impI)
  assume "output_nonempty out"
  then show "normalize_reference_symbols ls path out
          = (Inl (FileExistsError (''output_exists:'' @ path)), out)"
    by (simp add: normalize_reference_symbols_def)
next
  assume "\<not> output_nonempty out \<and> os_path_dirname path = []"
  then show "normalize_reference_symbols ls path out = (Inl (FileNotFoundError []), out)"
    by (simp add: normalize_reference_symbols_def)
next
  assume h: "\<not> output_nonempty out \<and> os_path_dirname path \<noteq> [] \<and> BadJson \<notin> set pre
        \<and> (\<forall>x \<in> set (segs_of pre). \<not> isl (normalize_record x))
        \<and> distinct (map derive_id (segs_of pre))"
  then obtain sample' where pre:
    "normalize_lines (pre @ Seg s # post) {} [] 0 []
       = normalize_lines (Seg s # post) ({} \<union> set (map derive_id (segs_of pre))) sample'
           (0 + int (length (segs_of pre))) ([] @ recs)"
    unfolding recs_def
    using normalize_lines_clean_prefix [of pre "{}" "Seg s # post" "[]" 0 "[]"] by auto
  have run: "run = (fst (normalize_lines (pre @ Seg s # post) {} [] 0 []),
                    Some (snd (normalize_lines (pre @ Seg s # post) {} [] 0 [])))"
    using h by (simp add: run_def normalize_reference_symbols_def split_beta)
  {
    assume bad: "isl (normalize_record s)"
    then obtain e where "normalize_record s = Inl e" by (cases "normalize_record s") auto
    with run pre show "run = (Inl (projl (normalize_record s)), Some recs)" by simp
  }
  {
    assume dup: "\<not> isl (normalize_record s)
        \<and> derive_id s \<in> set (map derive_id (segs_of pre))"
    then obtain rec where rec: "normalize_record s = Inr rec"
      by (cases "normalize_record s") auto
    from normalize_record_id [OF rec] dup
    have "reference_symbol_id rec \<in> set (map derive_id (segs_of pre))"
      and "reference_symbol_id rec = derive_id s" by simp_all
    with run pre rec
    show "run = (Inl (ValueError (''duplicate_reference_symbol_id:'' @ derive_id s)),
                    Some recs)"
      by simp
  }
  have "reference_symbol_id (projr (normalize_record x)) = derive_id x"
    if "x \<in> set (segs_of pre)" for x
  proof -
    from that h obtain rec where rec: "normalize_record x = Inr rec"
      by (cases "normalize_record x") auto
    from normalize_record_id [OF rec] rec show ?thesis by simp
  qed
  then show "map reference_symbol_id recs = map derive_id (segs_of pre)"
    by (simp add: recs_def)
next
  assume "BadJson \<notin> set ls
        \<and> (\<not> distinct (map derive_id (segs_of ls))
            \<or> (\<exists>x \<in> set (segs_of ls). isl (normalize_record x)))"
  then show "\<exists>pre' s' post'. ls = pre' @ Seg s' # post' \<and> BadJson \<notin> set pre'
             \<and> (\<forall>x \<in> set (segs_of pre'). \<not> isl (normalize_record x))
             \<and> distinct (map derive_id (segs_of pre'))
             \<and> (isl (normalize_record s')
                  \<or> derive_id s' \<in> set (map derive_id (segs_of pre')))"
    using first_offender [of ls] by blast
next
  assume h: "\<not> output_nonempty out \<and> os_path_dirname path \<noteq> []
        \<and> (\<not> distinct (map derive_id (segs_of ls))
            \<or> (\<exists>x \<in> set (segs_of ls). isl (normalize_record x)))"
  then have "isl (fst (normalize_lines ls {} [] 0 []))"
    using normalize_lines_failure [of ls "{}" "[]" 0 "[]"] by auto
  with h show "isl (fst (normalize_reference_symbols ls path out))"
    by (simp add: normalize_reference_symbols_def split_beta)
qed

text \<open>
  A batch of a valid segment, a blank line and a segment without symbol name aborts with
  \<open>missing_required:symbol_name\<close>; with a copy of the first segment in the place of the
  third it aborts with \<open>duplicate_reference_symbol_id\<close>; the output file holds the
  record of the first segment in both cases. A run against an output file that holds a
  record is refused, and a run whose output path is a bare file name creates nothing.
\<close>

theorem normalize_reference_symbols_abort_witness:
  "normalize_reference_symbols [Seg abs_segment, Blank, Seg nameless_segment, Seg abs_segment]
      ''normalized/v6/reference_symbols.jsonl'' None
     = (Inl (ValueError ''missing_required:symbol_name''), Some [abs_record])
   \<and> normalize_reference_symbols [Seg abs_segment, Blank, Seg abs_segment]
      ''normalized/v6/reference_symbols.jsonl'' (Some [])
     = (Inl (ValueError ''duplicate_reference_symbol_id:9f2c:fun_abs''), Some [abs_record])
   \<and> normalize_reference_symbols [Seg abs_segment] ''normalized/v6/reference_symbols.jsonl''
        (Some [abs_record])
     = (Inl (FileExistsError ''output_exists:normalized/v6/reference_symbols.jsonl''),
        Some [abs_record])
   \<and> normalize_reference_symbols [Seg abs_segment] ''out.jsonl'' None
     = (Inl (FileNotFoundError []), None)
   \<and> isl (fst (normalize_reference_symbols [Seg abs_segment, BadJson, Seg abs_segment]
        ''normalized/v6/reference_symbols.jsonl'' None))"
proof -
  let ?path = "''normalized/v6/reference_symbols.jsonl''"
  have abs: "normalize_record abs_segment = Inr abs_record"
    by (simp add: normalize_record_def derive_symbol_type_def first_matching_prefix_def
        ANCHOR_PREFIXES_def rstrip_char_def abs_segment_def abs_record_def derive_id_def
        py_str_def missing_required_def is_missing_def SYMBOL_TYPES_def Let_def)
  have nameless: "normalize_record nameless_segment
      = Inl (ValueError ''missing_required:symbol_name'')"
    by (simp add: normalize_record_def derive_symbol_type_def first_matching_prefix_def
        ANCHOR_PREFIXES_def rstrip_char_def nameless_segment_def abs_segment_def derive_id_def
        py_str_def missing_required_def is_missing_def join_with_def Let_def)
  have id: "derive_id abs_segment = ''9f2c:fun_abs''"
    by (simp add: derive_id_def abs_segment_def py_str_def)
  have dir: "os_path_dirname ?path \<noteq> []" "os_path_dirname ''out.jsonl'' = []"
    by (simp_all add: os_path_dirname_def rstrip_char_def)
  have ne: "\<not> output_nonempty None" "\<not> output_nonempty (Some [])"
    "output_nonempty (Some [abs_record])"
    by (simp_all add: output_nonempty_def)
  from normalize_reference_symbols_abort [where pre = "[Seg abs_segment, Blank]"
      and s = nameless_segment and post = "[Seg abs_segment]" and path = ?path and out = None]
    abs nameless dir ne
  have 1: "normalize_reference_symbols
      [Seg abs_segment, Blank, Seg nameless_segment, Seg abs_segment] ?path None
     = (Inl (ValueError ''missing_required:symbol_name''), Some [abs_record])"
    by simp
  from normalize_reference_symbols_abort [where pre = "[Seg abs_segment, Blank]"
      and s = abs_segment and post = "[]" and path = ?path and out = "Some []"]
    abs id dir ne
  have 2: "normalize_reference_symbols [Seg abs_segment, Blank, Seg abs_segment] ?path (Some [])
     = (Inl (ValueError ''duplicate_reference_symbol_id:9f2c:fun_abs''), Some [abs_record])"
    by simp
  from normalize_reference_symbols_abort [where ls = "[Seg abs_segment]" and path = ?path
      and out = "Some [abs_record]"] ne
  have 3: "normalize_reference_symbols [Seg abs_segment] ?path (Some [abs_record])
     = (Inl (FileExistsError ''output_exists:normalized/v6/reference_symbols.jsonl''),
        Some [abs_record])"
    by simp
  from normalize_reference_symbols_abort [where ls = "[Seg abs_segment]"
      and path = "''out.jsonl''" and out = None] dir ne
  have 4: "normalize_reference_symbols [Seg abs_segment] ''out.jsonl'' None
     = (Inl (FileNotFoundError []), None)"
    by simp
  from normalize_reference_symbols_abort [where ls = "[Seg abs_segment, BadJson, Seg abs_segment]"
      and path = ?path and out = None] dir ne id
  have 5: "isl (fst (normalize_reference_symbols [Seg abs_segment, BadJson, Seg abs_segment]
        ?path None))"
    by simp
  from 1 2 3 4 5 show ?thesis by simp
qed

subsection \<open>C8: URL canonicalization\<close>

lemma rstrip_char_no_trailing:
  "rstrip_char c s = [] \<or> last (rstrip_char c s) \<noteq> c"
proof -
  have "dropWhile (\<lambda>x. x = c) xs = [] \<or> hd (dropWhile (\<lambda>x. x = c) xs) \<noteq> c" for xs
    using hd_dropWhile [of "\<lambda>x. x = c" xs] by auto
  from this [of "rev s"] show ?thesis
    by (auto simp: rstrip_char_def last_rev)
qed

lemma rstrip_char_id: "s = [] \<or> last s \<noteq> c \<Longrightarrow> rstrip_char c s = s"
proof -
  assume "s = [] \<or> last s \<noteq> c"
  then have "dropWhile (\<lambda>x. x = c) (rev s) = rev s"
    by (cases "rev s") (auto simp: last_rev [symmetric] hd_rev)
  then show ?thesis by (simp add: rstrip_char_def)
qed

lemma rstrip_char_prefix:
  "\<exists>k. s = rstrip_char c s @ replicate k c"
proof -
  have "\<exists>k. xs = replicate k c @ dropWhile (\<lambda>x. x = c) xs" for xs
  proof (induction xs)
    case Nil
    then show ?case by simp
  next
    case (Cons x xs)
    show ?case
    proof (cases "x = c")
      case True
      from Cons obtain k where "xs = replicate k c @ dropWhile (\<lambda>x. x = c) xs" by blast
      with True have "x # xs = replicate (Suc k) c @ dropWhile (\<lambda>x. x = c) (x # xs)"
        by simp
      then show ?thesis by blast
    next
      case False
      then have "x # xs = replicate 0 c @ dropWhile (\<lambda>x. x = c) (x # xs)" by simp
      then show ?thesis by blast
    qed
  qed
  from this [of "rev s"] obtain k where "rev s = replicate k c @ dropWhile (\<lambda>x. x = c) (rev s)"
    by blast
  then have "rev (rev s) = rev (replicate k c @ dropWhile (\<lambda>x. x = c) (rev s))" by simp
  then have "s = rstrip_char c s @ replicate k c"
    by (simp add: rstrip_char_def)
  then show ?thesis by blast
qed

lemma endswith_slash: "endswith s ''/'' \<longleftrightarrow> s \<noteq> [] \<and> last s = CHR ''/''"
  unfolding endswith_def
  by (cases s rule: rev_cases) (auto simp: suffix_def)

text \<open>
  C8 as stated fails on two inputs with a scheme. The network location of
  \<^verbatim>\<open>http://tradingview.com:80/x/\<close> names the host \<open>tradingview.com\<close>, but it is not the
  string \<open>tradingview.com\<close>, and the result keeps it: the host is not folded into
  \<open>www.tradingview.com\<close>. On \<^verbatim>\<open>http://[tradingview.com/a\<close> \<^verbatim>\<open>urlparse\<close> raises
  \<^verbatim>\<open>ValueError\<close>, and so does \<^verbatim>\<open>canonicalize_url\<close>: it returns no URL.
\<close>

theorem canonicalize_url_counterexample:
  "port_parse ''http://tradingview.com:80/x/''
     = Inr \<lparr> u_scheme = ''http'', u_netloc = ''tradingview.com:80'', u_path = ''/x/'',
         u_params = [], u_query = [], u_fragment = [] \<rparr>
   \<and> hostname \<lparr> u_scheme = ''http'', u_netloc = ''tradingview.com:80'', u_path = ''/x/'',
         u_params = [], u_query = [], u_fragment = [] \<rparr> = Some ''tradingview.com''
   \<and> canonicalize_url port_parse ''http://tradingview.com:80/x/''
       = Inr (Some ''https://tradingview.com:80/x'')
   \<and> canonicalize_url bracket_parse ''http://[tradingview.com/a''
       = Inl (ValueError ''Invalid IPv6 URL'')"
  by (simp add: port_parse_def bracket_parse_def hostname_def partition_at_def py_lower_def
      canonicalize_url_def urlunparse_def endswith_def suffix_to_prefix rstrip_char_def Let_def)

text \<open>
  C8, amended. When \<^verbatim>\<open>urlparse\<close> raises on the input, \<^verbatim>\<open>canonicalize_url\<close> raises the same
  exception. When it returns components with a scheme or a network location,
  canonicalization returns \<open>https://\<close> followed by a network location and a path,
  assembled with empty params, query and fragment: the network location is
  \<open>www.tradingview.com\<close> when the parsed one is empty or is the string
  \<open>tradingview.com\<close>, and the parsed one unchanged otherwise (with its port, user
  information and letter case, whatever host it names); the path is \<open>/\<close> when the
  parsed path is empty or \<open>/\<close>, and otherwise the parsed path without its trailing
  slashes, so it has no trailing slash. When the components have neither scheme nor
  network location the result is \<open>None\<close>.
\<close>

theorem canonicalize_url_spec:
  fixes urlparse :: "string \<Rightarrow> py_exception + ParseResult" and raw :: string
    and p :: ParseResult and e :: py_exception
  defines "host \<equiv> (if u_netloc p = [] \<or> u_netloc p = ''tradingview.com''
                     then ''www.tradingview.com'' else u_netloc p)"
  defines "cpath \<equiv> (if u_path p = [] \<or> u_path p = ''/'' then ''/''
                      else rstrip_char CHR ''/'' (u_path p))"
  shows "(urlparse raw = Inl e \<longrightarrow> canonicalize_url urlparse raw = Inl e)
       \<and> (urlparse raw = Inr p \<and> (u_scheme p \<noteq> [] \<or> u_netloc p \<noteq> []) \<longrightarrow>
            canonicalize_url urlparse raw
              = Inr (Some (urlunparse (''https'', host, cpath, [], [], [])))
          \<and> canonicalize_url urlparse raw
              = Inr (Some (''https://'' @ host
                  @ (if cpath \<noteq> [] \<and> hd cpath \<noteq> CHR ''/'' then ''/'' @ cpath else cpath)))
          \<and> (cpath = ''/'' \<or> cpath = [] \<or> last cpath \<noteq> CHR ''/'')
          \<and> (u_path p \<noteq> [] \<longrightarrow> (\<exists>k. u_path p = cpath @ replicate k CHR ''/'')))
       \<and> (urlparse raw = Inr p \<and> u_scheme p = [] \<and> u_netloc p = [] \<longrightarrow>
            canonicalize_url urlparse raw = Inr None)"
proof (intro conjI impI)
  assume "urlparse raw = Inl e"
  then show "canonicalize_url urlparse raw = Inl e"
    by (simp add: canonicalize_url_def)
next
  assume "urlparse raw = Inr p \<and> u_scheme p = [] \<and> u_netloc p = []"
  then show "canonicalize_url urlparse raw = Inr None"
    by (simp add: canonicalize_url_def Let_def)
next
  assume h: "urlparse raw = Inr p \<and> (u_scheme p \<noteq> [] \<or> u_netloc p \<noteq> [])"
  have host_ne: "host \<noteq> []" by (auto simp: host_def)
  have path_eq:
    "(if (if u_path p \<noteq> [] then u_path p else ''/'') \<noteq> ''/''
          \<and> endswith (if u_path p \<noteq> [] then u_path p else ''/'') ''/''
      then rstrip_char CHR ''/'' (if u_path p \<noteq> [] then u_path p else ''/'')
      else (if u_path p \<noteq> [] then u_path p else ''/'')) = cpath"
    using rstrip_char_id [of "u_path p" "CHR ''/''"]
    by (auto simp: cpath_def endswith_slash)
  have host_eq:
    "(if (if u_netloc p \<noteq> [] then u_netloc p else ''www.tradingview.com'') = ''tradingview.com''
      then ''www.tradingview.com''
      else (if u_netloc p \<noteq> [] then u_netloc p else ''www.tradingview.com'')) = host"
    by (auto simp: host_def)
  from h have "canonicalize_url urlparse raw =
      Inr (Some (urlunparse (''https'',
        (if (if u_netloc p \<noteq> [] then u_netloc p else ''www.tradingview.com'') = ''tradingview.com''
         then ''www.tradingview.com''
         else (if u_netloc p \<noteq> [] then u_netloc p else ''www.tradingview.com'')),
        (if (if u_path p \<noteq> [] then u_path p else ''/'') \<noteq> ''/''
              \<and> endswith (if u_path p \<noteq> [] then u_path p else ''/'') ''/''
         then rstrip_char CHR ''/'' (if u_path p \<noteq> [] then u_path p else ''/'')
         else (if u_path p \<noteq> [] then u_path p else ''/'')), [], [], [])))"
    by (auto simp: canonicalize_url_def Let_def)
  then show run:
    "canonicalize_url urlparse raw
       = Inr (Some (urlunparse (''https'', host, cpath, [], [], [])))"
    unfolding path_eq host_eq .
  have "urlunparse (''https'', host, cpath, [], [], [])
      = ''https://'' @ host @ (if cpath \<noteq> [] \<and> hd cpath \<noteq> CHR ''/'' then ''/'' @ cpath else cpath)"
    using host_ne by (cases cpath) (auto simp: urlunparse_def Let_def)
  with run show "canonicalize_url urlparse raw
      = Inr (Some (''https://'' @ host
          @ (if cpath \<noteq> [] \<and> hd cpath \<noteq> CHR ''/'' then ''/'' @ cpath else cpath)))"
    by simp
  show "cpath = ''/'' \<or> cpath = [] \<or> last cpath \<noteq> CHR ''/''"
    using rstrip_char_no_trailing [of "CHR ''/''" "u_path p"] by (auto simp: cpath_def)
  show "\<exists>k. u_path p = cpath @ replicate k CHR ''/''" if "u_path p \<noteq> []"
  proof (cases "u_path p = ''/''")
    case True
    then have "u_path p = cpath @ replicate 0 CHR ''/''" by (simp add: cpath_def)
    then show ?thesis by blast
  next
    case False
    with that rstrip_char_prefix [of "u_path p" "CHR ''/''"] show ?thesis
      by (simp add: cpath_def)
  qed
qed

text \<open>
  The bare domain over \<open>http\<close> with a trailing slash, a query and a fragment; an input
  without scheme and network location; and an input on which \<^verbatim>\<open>urlparse\<close> raises.
\<close>

theorem canonicalize_url_spec_witness:
  "canonicalize_url docs_parse ''http://tradingview.com/pine-script-docs/?a=1#top''
     = Inr (Some ''https://www.tradingview.com/pine-script-docs'')
   \<and> canonicalize_url relative_parse ''pine-script-docs/welcome'' = Inr None
   \<and> canonicalize_url bracket_parse ''http://[tradingview.com/a''
     = Inl (ValueError ''Invalid IPv6 URL'')"
proof -
  let ?p = "\<lparr> u_scheme = ''http'', u_netloc = ''tradingview.com'',
      u_path = ''/pine-script-docs/'', u_params = [], u_query = ''a=1'',
      u_fragment = ''top'' \<rparr>"
  let ?q = "\<lparr> u_scheme = [], u_netloc = [], u_path = ''pine-script-docs/welcome'',
      u_params = [], u_query = [], u_fragment = [] \<rparr>"
  have strip: "rstrip_char CHR ''/'' ''/pine-script-docs/'' = ''/pine-script-docs''"
    by (simp add: rstrip_char_def)
  from canonicalize_url_spec [where urlparse = docs_parse
      and raw = "''http://tradingview.com/pine-script-docs/?a=1#top''" and p = ?p]
  have 1: "canonicalize_url docs_parse ''http://tradingview.com/pine-script-docs/?a=1#top''
     = Inr (Some ''https://www.tradingview.com/pine-script-docs'')"
    by (simp add: docs_parse_def strip urlunparse_def)
  from canonicalize_url_spec [where urlparse = relative_parse
      and raw = "''pine-script-docs/welcome''" and p = ?q]
  have 2: "canonicalize_url relative_parse ''pine-script-docs/welcome'' = Inr None"
    by (simp add: relative_parse_def)
  from canonicalize_url_spec [where urlparse = bracket_parse
      and raw = "''http://[tradingview.com/a''" and e = "ValueError ''Invalid IPv6 URL''"]
  have 3: "canonicalize_url bracket_parse ''http://[tradingview.com/a''
     = Inl (ValueError ''Invalid IPv6 URL'')"
    by (simp add: bracket_parse_def)
  from 1 2 3 show ?thesis by simp
qed

subsection \<open>One iteration of the acquisition loop\<close>

lemma fetch_with_retries_frame:
  "fetch_with_retries E n url w k = (r, w') \<Longrightarrow>
   \<exists>m. 0 < m \<and> w' = w \<lparr> requests := requests w @ replicate m url \<rparr>"
proof (induction E n url w k rule: fetch_with_retries.induct)
  case (1 E n url w attempt)
  let ?w = "w \<lparr> requests := requests w @ [url] \<rparr>"
  show ?case
  proof (cases "fetch_bytes E (length (requests w)) url")
    case (Returns result)
    with 1(2) have "w' = w \<lparr> requests := requests w @ replicate 1 url \<rparr>"
      by (simp add: fetch_with_retries.simps [of E n url w attempt] Let_def)
    then show ?thesis by blast
  next
    case Raises
    show ?thesis
    proof (cases "attempt + 1 > n")
      case True
      with Raises 1(2) have "w' = w \<lparr> requests := requests w @ replicate 1 url \<rparr>"
        by (simp add: fetch_with_retries.simps [of E n url w attempt] Let_def)
      then show ?thesis by blast
    next
      case False
      with Raises 1(2) have "fetch_with_retries E n url ?w (attempt + 1) = (r, w')"
        by (simp add: fetch_with_retries.simps [of E n url w attempt] Let_def)
      from 1(1) [OF refl Raises False this] obtain m where
        "0 < m" "w' = ?w \<lparr> requests := requests ?w @ replicate m url \<rparr>" by blast
      then have "w' = w \<lparr> requests := requests w @ replicate (Suc m) url \<rparr>"
        by (simp add: replicate_app_Cons_same)
      then show ?thesis by blast
    qed
  qed
qed

lemma fetch_with_retries_cong:
  "requests v = requests w \<Longrightarrow>
   fst (fetch_with_retries E n url v k) = fst (fetch_with_retries E n url w k)"
proof (induction E n url w k arbitrary: v rule: fetch_with_retries.induct)
  case (1 E n url w attempt)
  show ?case
  proof (cases "fetch_bytes E (length (requests w)) url")
    case (Returns result)
    with 1(2) show ?thesis
      by (simp add: fetch_with_retries.simps [of E n url w attempt]
          fetch_with_retries.simps [of E n url v attempt] Let_def)
  next
    case Raises
    show ?thesis
    proof (cases "attempt + 1 > n")
      case True
      with Raises 1(2) show ?thesis
        by (simp add: fetch_with_retries.simps [of E n url w attempt]
            fetch_with_retries.simps [of E n url v attempt] Let_def)
    next
      case False
      have "requests (v \<lparr> requests := requests v @ [url] \<rparr>)
          = requests (w \<lparr> requests := requests w @ [url] \<rparr>)"
        using 1(2) by simp
      from 1(1) [OF refl Raises False this] Raises False 1(2) show ?thesis
        by (simp add: fetch_with_retries.simps [of E n url w attempt]
            fetch_with_retries.simps [of E n url v attempt] Let_def)
    qed
  qed
qed

lemma record_failure_reference:
  "i_doc_type item = ''reference'' \<Longrightarrow>
   record_failure w item reason =
     (Break, w \<lparr> run_log := run_log w @
         [\<lparr> fr_canonical_url = i_canonical_url item, fr_doc_type = i_doc_type item,
            fr_pine_version = i_pine_version item, fr_reason = reason \<rparr>],
       failed_reference := failed_reference w + 1 \<rparr>)"
  by (simp add: record_failure_def Let_def)

lemma record_failure_guide:
  "i_doc_type item \<noteq> ''reference'' \<Longrightarrow>
   record_failure w item reason =
     (Continue, w \<lparr> run_log := run_log w @
         [\<lparr> fr_canonical_url = i_canonical_url item, fr_doc_type = i_doc_type item,
            fr_pine_version = i_pine_version item, fr_reason = reason \<rparr>],
       failed_guide := failed_guide w + 1 \<rparr>)"
  by (simp add: record_failure_def Let_def)

lemma process_item_failure:
  assumes "is_failure (item_outcome E P w item)"
  shows "\<exists>m. process_item E P w item =
      record_failure (w \<lparr> attempted := attempted w + 1,
                          requests := requests w @ replicate m (i_canonical_url item) \<rparr>)
        item (failure_reason (item_outcome E P w item))"
proof (cases "is_allowed_by_robots E (i_canonical_url item) (disallow_paths P)")
  case False
  then have "process_item E P w item
      = record_failure (w \<lparr> attempted := attempted w + 1,
          requests := requests w @ replicate 0 (i_canonical_url item) \<rparr>) item ''robots_disallow''"
    by (simp add: process_item_def Let_def)
  moreover from False have "item_outcome E P w item = RobotsDisallow"
    by (simp add: item_outcome_def)
  ultimately show ?thesis by (auto simp: failure_reason_def simp del: replicate.simps)
next
  case allowed: True
  obtain raw_path meta_path where paths:
    "artifact_paths E (output_root P) item None = (raw_path, meta_path)"
    by (cases "artifact_paths E (output_root P) item None")
  let ?w0 = "w \<lparr> attempted := attempted w + 1 \<rparr>"
  from assms allowed paths have none: "existing_checksum E (fs w) meta_path raw_path = None"
    by (auto simp: item_outcome_def is_failure_def split: option.splits)
  obtain r w1 where f: "fetch_with_retries E (retries P) (i_canonical_url item) ?w0 0 = (r, w1)"
    by (cases "fetch_with_retries E (retries P) (i_canonical_url item) ?w0 0")
  from fetch_with_retries_frame [OF f] obtain m where
    w1: "w1 = ?w0 \<lparr> requests := requests ?w0 @ replicate m (i_canonical_url item) \<rparr>"
    by blast
  have r: "fst (fetch_with_retries E (retries P) (i_canonical_url item) w 0) = r"
    using fetch_with_retries_cong [of ?w0 w E "retries P" "i_canonical_url item" 0] f by simp
  show ?thesis
  proof (cases r)
    case None
    with allowed paths none r have "item_outcome E P w item = FetchError"
      by (simp add: item_outcome_def)
    moreover from None allowed paths none f
    have "process_item E P w item = record_failure w1 item ''fetch_error''"
      by (simp add: process_item_def Let_def)
    ultimately show ?thesis using w1 by (auto simp: failure_reason_def)
  next
    case (Some result)
    with assms allowed paths none r have
      bad: "f_status result < 200 \<or> f_status result \<ge> 300"
      and out: "item_outcome E P w item = HttpError (f_status result)"
      by (auto simp: item_outcome_def is_failure_def split: if_splits)
    from Some allowed paths none f bad
    have "process_item E P w item
        = record_failure w1 item (''http_'' @ str_int (f_status result))"
      by (simp add: process_item_def Let_def)
    with out w1 show ?thesis by (auto simp: failure_reason_def)
  qed
qed

lemma process_item_skip:
  assumes "is_allowed_by_robots E (i_canonical_url item) (disallow_paths P)"
    and "existing_checksum E (fs w) (snd (artifact_paths E (output_root P) item None))
           (fst (artifact_paths E (output_root P) item None)) = Some c"
  shows "process_item E P w item
     = (Continue, w \<lparr> attempted := attempted w + 1, skipped := skipped w + 1 \<rparr>)"
  using assms by (simp add: process_item_def Let_def split_beta)

lemma process_item_no_failure:
  assumes "\<not> is_failure (item_outcome E P w item)"
  shows "\<exists>w'. process_item E P w item = (Continue, w')
     \<and> failed_reference w' = failed_reference w \<and> failed_guide w' = failed_guide w
     \<and> run_log w' = run_log w \<and> attempted w' = attempted w + 1"
proof -
  from assms have allowed: "is_allowed_by_robots E (i_canonical_url item) (disallow_paths P)"
    by (auto simp: item_outcome_def is_failure_def split: if_splits)
  obtain raw_path meta_path where paths:
    "artifact_paths E (output_root P) item None = (raw_path, meta_path)"
    by (cases "artifact_paths E (output_root P) item None")
  let ?w0 = "w \<lparr> attempted := attempted w + 1 \<rparr>"
  show ?thesis
  proof (cases "existing_checksum E (fs w) meta_path raw_path")
    case (Some c)
    with allowed paths show ?thesis by (simp add: process_item_def Let_def)
  next
    case None
    obtain r w1 where f: "fetch_with_retries E (retries P) (i_canonical_url item) ?w0 0 = (r, w1)"
      by (cases "fetch_with_retries E (retries P) (i_canonical_url item) ?w0 0")
    from fetch_with_retries_frame [OF f] obtain m where
      w1: "w1 = ?w0 \<lparr> requests := requests ?w0 @ replicate m (i_canonical_url item) \<rparr>"
      by blast
    have r: "fst (fetch_with_retries E (retries P) (i_canonical_url item) w 0) = r"
      using fetch_with_retries_cong [of ?w0 w E "retries P" "i_canonical_url item" 0] f by simp
    from assms allowed paths None r obtain result where
      res: "r = Some result" "\<not> (f_status result < 200 \<or> f_status result \<ge> 300)"
      by (auto simp: item_outcome_def is_failure_def split: option.splits if_splits)
    with allowed paths None f w1 show ?thesis
      by (simp add: process_item_def Let_def write_raw_and_meta_def split_beta)
  qed
qed

lemma process_item_break_iff:
  "fst (process_item E P w item) = Break \<longleftrightarrow>
     is_failure (item_outcome E P w item) \<and> i_doc_type item = ''reference''"
proof (cases "is_failure (item_outcome E P w item)")
  case True
  from process_item_failure [OF True] obtain m where
    step: "process_item E P w item =
      record_failure (w \<lparr> attempted := attempted w + 1,
                          requests := requests w @ replicate m (i_canonical_url item) \<rparr>)
        item (failure_reason (item_outcome E P w item))"
    by blast
  show ?thesis
  proof (cases "i_doc_type item = ''reference''")
    case ref: True
    with True step show ?thesis by (simp add: record_failure_reference)
  next
    case False
    with True step show ?thesis by (simp add: record_failure_guide)
  qed
next
  case False
  from process_item_no_failure [OF False] show ?thesis
    using False by auto
qed

lemma acquire_items_append:
  "acquire_items E P w pre = (Continue, w1) \<Longrightarrow>
   acquire_items E P w (pre @ rest) = acquire_items E P w1 rest"
proof (induction pre arbitrary: w)
  case Nil
  then show ?case by simp
next
  case (Cons a pre)
  obtain c w' where step: "process_item E P w a = (c, w')"
    by (cases "process_item E P w a")
  with Cons.prems have c: "c = Continue" by (cases c) auto
  with step Cons.prems have "acquire_items E P w' pre = (Continue, w1)" by simp
  from Cons.IH [OF this] step c show ?case by simp
qed

lemma acquire_items_continue_counts:
  "acquire_items E P w items = (Continue, w1) \<Longrightarrow>
   attempted w1 = attempted w + int (length items) \<and> failed_reference w1 = failed_reference w"
proof (induction items arbitrary: w)
  case Nil
  then show ?case by simp
next
  case (Cons a items)
  obtain c w' where step: "process_item E P w a = (c, w')"
    by (cases "process_item E P w a")
  with Cons.prems have c: "c = Continue" by (cases c) auto
  with step Cons.prems have rest: "acquire_items E P w' items = (Continue, w1)" by simp
  have "attempted w' = attempted w + 1 \<and> failed_reference w' = failed_reference w"
  proof (cases "is_failure (item_outcome E P w a)")
    case True
    from process_item_failure [OF True] obtain m where
      "process_item E P w a =
        record_failure (w \<lparr> attempted := attempted w + 1,
                            requests := requests w @ replicate m (i_canonical_url a) \<rparr>)
          a (failure_reason (item_outcome E P w a))"
      by blast
    with step c show ?thesis
      by (cases "i_doc_type a = ''reference''")
         (auto simp: record_failure_reference record_failure_guide)
  next
    case False
    from process_item_no_failure [OF False] step show ?thesis by auto
  qed
  with Cons.IH [OF rest] show ?case by simp
qed

subsection \<open>C2: a reference failure halts the run, a guide failure does not\<close>

lemma demo_run_first:
  "acquire_items (demo_env ref_down (\<lambda>n. ''t'')) demo_params empty_world [demo_item ''guide'' url_a]
     = (Continue,
        \<lparr> fs = [''raw/guide/v6/sha-https://www.tradingview.com/a.html'' \<mapsto> ''<p>ok</p>'',
                ''raw/guide/v6/sha-https://www.tradingview.com/a.html.meta.json''
                  \<mapsto> ''sha-<p>ok</p>''],
          run_log = [], requests = [url_a], ticks = 1, attempted = 1, written = 1,
          skipped = 0, failed_guide = 0, failed_reference = 0 \<rparr>)"
  by (simp add: process_item_def demo_env_def demo_params_def empty_world_def demo_item_def
      url_a_def url_ref_def ref_down_def page_def is_allowed_by_robots_def artifact_paths_def
      os_path_join_def endswith_def suffix_to_prefix url_hash_def existing_checksum_def write_raw_and_meta_def
      fetch_with_retries.simps Let_def)

text \<open>
  C2. If the items before a \<^verbatim>\<open>reference\<close> item run through and that item fails (robots
  disallow, fetch error after the retries, or a status outside 200..299), the run over
  the whole inventory ends there: its final state is the state after that item, whatever
  follows it in the inventory; exactly the items up to it were attempted, only its URL
  was requested in its iteration, one failure record was logged, \<open>failed_reference\<close>
  went up by one and nothing was written. A failure of an item of any other document
  type logs one record, counts one guide failure, and the loop goes on with the next
  item. The loop breaks at an item only in the first case.
\<close>

theorem reference_failure_halts:
  fixes E :: env and P :: params and w :: world
    and pre post rest :: "InventoryItem list" and bad g item :: InventoryItem
  defines "w1 \<equiv> snd (acquire_items E P w pre)"
  defines "w2 \<equiv> snd (process_item E P w1 bad)"
  defines "wg \<equiv> snd (process_item E P w g)"
  shows
    "(fst (acquire_items E P w pre) = Continue \<and> is_failure (item_outcome E P w1 bad)
        \<and> i_doc_type bad = ''reference'' \<longrightarrow>
          acquire_items E P w (pre @ bad # post) = (Break, w2)
        \<and> failed_reference w2 = failed_reference w + 1
        \<and> attempted w2 = attempted w + int (length pre) + 1
        \<and> (\<exists>m. requests w2 = requests w1 @ replicate m (i_canonical_url bad))
        \<and> run_log w2 = run_log w1 @
             [\<lparr> fr_canonical_url = i_canonical_url bad, fr_doc_type = i_doc_type bad,
                fr_pine_version = i_pine_version bad,
                fr_reason = failure_reason (item_outcome E P w1 bad) \<rparr>]
        \<and> fs w2 = fs w1 \<and> written w2 = written w1 \<and> skipped w2 = skipped w1
        \<and> failed_guide w2 = failed_guide w1)
   \<and> (is_failure (item_outcome E P w g) \<and> i_doc_type g \<noteq> ''reference'' \<longrightarrow>
          acquire_items E P w (g # rest) = acquire_items E P wg rest
        \<and> failed_guide wg = failed_guide w + 1
        \<and> failed_reference wg = failed_reference w
        \<and> attempted wg = attempted w + 1
        \<and> run_log wg = run_log w @
             [\<lparr> fr_canonical_url = i_canonical_url g, fr_doc_type = i_doc_type g,
                fr_pine_version = i_pine_version g,
                fr_reason = failure_reason (item_outcome E P w g) \<rparr>]
        \<and> fs wg = fs w \<and> written wg = written w \<and> skipped wg = skipped w)
   \<and> (fst (process_item E P w item) = Break \<longleftrightarrow>
          is_failure (item_outcome E P w item) \<and> i_doc_type item = ''reference'')"
proof (intro conjI impI)
  assume h: "fst (acquire_items E P w pre) = Continue \<and> is_failure (item_outcome E P w1 bad)
        \<and> i_doc_type bad = ''reference''"
  then have pre: "acquire_items E P w pre = (Continue, w1)"
    unfolding w1_def by (metis prod.collapse)
  from h process_item_failure [of E P w1 bad] obtain m where
    "process_item E P w1 bad =
      record_failure (w1 \<lparr> attempted := attempted w1 + 1,
                           requests := requests w1 @ replicate m (i_canonical_url bad) \<rparr>)
        bad (failure_reason (item_outcome E P w1 bad))"
    by blast
  with h have step: "process_item E P w1 bad =
     (Break, w1 \<lparr> attempted := attempted w1 + 1,
        requests := requests w1 @ replicate m (i_canonical_url bad),
        run_log := run_log w1 @
         [\<lparr> fr_canonical_url = i_canonical_url bad, fr_doc_type = i_doc_type bad,
            fr_pine_version = i_pine_version bad,
            fr_reason = failure_reason (item_outcome E P w1 bad) \<rparr>],
        failed_reference := failed_reference w1 + 1 \<rparr>)"
    by (simp add: record_failure_reference)
  then have w2: "w2 = w1 \<lparr> attempted := attempted w1 + 1,
        requests := requests w1 @ replicate m (i_canonical_url bad),
        run_log := run_log w1 @
         [\<lparr> fr_canonical_url = i_canonical_url bad, fr_doc_type = i_doc_type bad,
            fr_pine_version = i_pine_version bad,
            fr_reason = failure_reason (item_outcome E P w1 bad) \<rparr>],
        failed_reference := failed_reference w1 + 1 \<rparr>"
    by (simp add: w2_def)
  note counts = acquire_items_continue_counts [OF pre]
  from acquire_items_append [OF pre, of "bad # post"] step w2
  show "acquire_items E P w (pre @ bad # post) = (Break, w2)" by simp
  show "failed_reference w2 = failed_reference w + 1" using w2 counts by simp
  show "attempted w2 = attempted w + int (length pre) + 1" using w2 counts by simp
  show "\<exists>m. requests w2 = requests w1 @ replicate m (i_canonical_url bad)"
    using w2 by auto
  show "run_log w2 = run_log w1 @
             [\<lparr> fr_canonical_url = i_canonical_url bad, fr_doc_type = i_doc_type bad,
                fr_pine_version = i_pine_version bad,
                fr_reason = failure_reason (item_outcome E P w1 bad) \<rparr>]"
    using w2 by simp
  show "fs w2 = fs w1" "written w2 = written w1" "skipped w2 = skipped w1"
    "failed_guide w2 = failed_guide w1"
    using w2 by simp_all
next
  assume h: "is_failure (item_outcome E P w g) \<and> i_doc_type g \<noteq> ''reference''"
  with process_item_failure [of E P w g] obtain m where
    "process_item E P w g =
      record_failure (w \<lparr> attempted := attempted w + 1,
                          requests := requests w @ replicate m (i_canonical_url g) \<rparr>)
        g (failure_reason (item_outcome E P w g))"
    by blast
  with h have step: "process_item E P w g =
     (Continue, w \<lparr> attempted := attempted w + 1,
        requests := requests w @ replicate m (i_canonical_url g),
        run_log := run_log w @
         [\<lparr> fr_canonical_url = i_canonical_url g, fr_doc_type = i_doc_type g,
            fr_pine_version = i_pine_version g,
            fr_reason = failure_reason (item_outcome E P w g) \<rparr>],
        failed_guide := failed_guide w + 1 \<rparr>)"
    by (simp add: record_failure_guide)
  then have wg: "wg = w \<lparr> attempted := attempted w + 1,
        requests := requests w @ replicate m (i_canonical_url g),
        run_log := run_log w @
         [\<lparr> fr_canonical_url = i_canonical_url g, fr_doc_type = i_doc_type g,
            fr_pine_version = i_pine_version g,
            fr_reason = failure_reason (item_outcome E P w g) \<rparr>],
        failed_guide := failed_guide w + 1 \<rparr>"
    by (simp add: wg_def)
  show "acquire_items E P w (g # rest) = acquire_items E P wg rest"
    using step wg by simp
  show "failed_guide wg = failed_guide w + 1" "failed_reference wg = failed_reference w"
    "attempted wg = attempted w + 1" "fs wg = fs w" "written wg = written w"
    "skipped wg = skipped w"
    using wg by simp_all
  show "run_log wg = run_log w @
             [\<lparr> fr_canonical_url = i_canonical_url g, fr_doc_type = i_doc_type g,
                fr_pine_version = i_pine_version g,
                fr_reason = failure_reason (item_outcome E P w g) \<rparr>]"
    using wg by simp
next
  show "fst (process_item E P w item) = Break \<longleftrightarrow>
          is_failure (item_outcome E P w item) \<and> i_doc_type item = ''reference''"
    by (rule process_item_break_iff)
qed

text \<open>
  The scenario of the specification: three items, the second a reference page whose
  every request raises; with two retries it is requested three times, and the third item
  is never attempted.
\<close>

theorem reference_failure_halts_witness:
  "fst (acquire_items (demo_env ref_down (\<lambda>n. ''t'')) demo_params empty_world
      ([demo_item ''guide'' url_a] @ demo_item ''reference'' url_ref
         # [demo_item ''guide'' url_b])) = Break
   \<and> failed_reference (snd (acquire_items (demo_env ref_down (\<lambda>n. ''t'')) demo_params
        empty_world ([demo_item ''guide'' url_a] @ demo_item ''reference'' url_ref
         # [demo_item ''guide'' url_b]))) = 1
   \<and> attempted (snd (acquire_items (demo_env ref_down (\<lambda>n. ''t'')) demo_params
        empty_world ([demo_item ''guide'' url_a] @ demo_item ''reference'' url_ref
         # [demo_item ''guide'' url_b]))) = 2"
proof -
  let ?E = "demo_env ref_down (\<lambda>n. ''t'')"
  let ?pre = "[demo_item ''guide'' url_a]"
  let ?bad = "demo_item ''reference'' url_ref"
  have pre: "fst (acquire_items ?E demo_params empty_world ?pre) = Continue"
    by (simp only: demo_run_first fst_conv)
  have bad: "is_failure (item_outcome ?E demo_params
      (snd (acquire_items ?E demo_params empty_world ?pre)) ?bad)"
    by (simp only: demo_run_first snd_conv)
       (simp add: item_outcome_def is_failure_def demo_env_def demo_params_def demo_item_def
          url_ref_def url_a_def ref_down_def is_allowed_by_robots_def artifact_paths_def
          os_path_join_def endswith_def suffix_to_prefix url_hash_def existing_checksum_def
          fetch_with_retries.simps Let_def)
  have ref: "i_doc_type ?bad = ''reference''" by (simp add: demo_item_def)
  from reference_failure_halts [of ?E demo_params empty_world ?pre ?bad
      "[demo_item ''guide'' url_b]"] pre bad ref
  show ?thesis by (simp add: empty_world_def)
qed

subsection \<open>Paths of artifacts and sidecars\<close>

lemma os_path_join_suffix: "suffix b (os_path_join a b)"
  by (auto simp: os_path_join_def suffix_def)

lemma base_paths_shape:
  "\<exists>x. base_paths E (output_root P) item = (x @ ''.html'', x @ ''.html'' @ ''.meta.json'')"
proof -
  let ?name = "url_hash E (i_canonical_url item) @ ''.html''"
  let ?dir = "os_path_join (os_path_join (output_root P) (i_doc_type item)) (i_pine_version item)"
  from os_path_join_suffix [of ?name ?dir] obtain zs where
    "os_path_join ?dir ?name = zs @ ?name" by (auto simp: suffix_def)
  then have "base_paths E (output_root P) item
      = ((zs @ url_hash E (i_canonical_url item)) @ ''.html'',
         (zs @ url_hash E (i_canonical_url item)) @ ''.html'' @ ''.meta.json'')"
    by (simp add: base_paths_def artifact_paths_def Let_def)
  then show ?thesis by blast
qed

lemma html_not_json: "x @ ''.html'' \<noteq> y @ ''.html'' @ ''.meta.json''"
proof
  assume "x @ ''.html'' = y @ ''.html'' @ ''.meta.json''"
  then have "last (x @ ''.html'') = last (y @ ''.html'' @ ''.meta.json'')" by simp
  then show False by simp
qed

lemma pure_parts:
  "is_allowed_by_robots (E \<lparr> fetch_bytes := net, strftime_now := clock, utc_now_iso := now \<rparr>)
     = is_allowed_by_robots E"
  "base_paths (E \<lparr> fetch_bytes := net, strftime_now := clock, utc_now_iso := now \<rparr>)
     = base_paths E"
  "matched (E \<lparr> fetch_bytes := net, strftime_now := clock, utc_now_iso := now \<rparr>)
     = matched E"
proof -
  let ?E = "E \<lparr> fetch_bytes := net, strftime_now := clock, utc_now_iso := now \<rparr>"
  show "is_allowed_by_robots ?E = is_allowed_by_robots E"
    by (simp add: fun_eq_iff is_allowed_by_robots_def)
  show bp: "base_paths ?E = base_paths E"
    by (simp add: fun_eq_iff base_paths_def artifact_paths_def url_hash_def)
  have "existing_checksum ?E = existing_checksum E"
    by (simp add: fun_eq_iff existing_checksum_def split: option.splits)
  with bp show "matched ?E = matched E"
    by (simp add: fun_eq_iff matched_def)
qed

subsection \<open>Writing a new artifact into a consistent store\<close>

lemma existing_checksum_Some:
  "existing_checksum E files mp rp = Some c \<Longrightarrow> files mp \<noteq> None \<and> files rp \<noteq> None"
  by (auto simp: existing_checksum_def split: option.splits)

lemma matched_present:
  "matched E (output_root P) files item \<Longrightarrow>
     files (fst (base_paths E (output_root P) item)) \<noteq> None \<and> files (snd (base_paths E (output_root P) item)) \<noteq> None"
  unfolding matched_def using existing_checksum_Some [of E files] by fastforce

lemma write_matches:
  assumes "codec_ok E" and "checksum m = sha256_hex E b"
    and "files' = (files(fst (base_paths E (output_root P) item) \<mapsto> b))
                    (snd (base_paths E (output_root P) item) \<mapsto> json_dump E m)"
  shows "matched E (output_root P) files' item"
proof -
  from base_paths_shape [of E P item] obtain x where
    bp: "base_paths E (output_root P) item = (x @ ''.html'', x @ ''.html'' @ ''.meta.json'')" by blast
  from assms(1) have "json_checksum E (json_dump E m) = Some (checksum m)"
    and "sha256_hex E b \<noteq> []"
    by (simp_all add: codec_ok_def)
  with assms(2,3) bp show ?thesis
    by (simp add: matched_def existing_checksum_def)
qed

lemma write_other:
  assumes "fst (base_paths E (output_root P) j) \<noteq> fst (base_paths E (output_root P) item)"
    and "files' = (files(fst (base_paths E (output_root P) item) \<mapsto> b))(snd (base_paths E (output_root P) item) \<mapsto> d)"
  shows "files' (fst (base_paths E (output_root P) j)) = files (fst (base_paths E (output_root P) j))"
    and "files' (snd (base_paths E (output_root P) j)) = files (snd (base_paths E (output_root P) j))"
    and "matched E (output_root P) files' j = matched E (output_root P) files j"
proof -
  from base_paths_shape [of E P item] obtain x where
    bp: "base_paths E (output_root P) item = (x @ ''.html'', x @ ''.html'' @ ''.meta.json'')" by blast
  from base_paths_shape [of E P j] obtain y where
    bpj: "base_paths E (output_root P) j = (y @ ''.html'', y @ ''.html'' @ ''.meta.json'')" by blast
  from assms(1) bp bpj have ne: "y \<noteq> x" by auto
  have a: "y @ ''.html'' \<noteq> x @ ''.html'' @ ''.meta.json''" by (rule html_not_json)
  have b: "y @ ''.html'' @ ''.meta.json'' \<noteq> x @ ''.html''"
    using html_not_json [of x y] by auto
  show r: "files' (fst (base_paths E (output_root P) j)) = files (fst (base_paths E (output_root P) j))"
    using assms(2) bp bpj ne a by simp
  show s: "files' (snd (base_paths E (output_root P) j)) = files (snd (base_paths E (output_root P) j))"
    using assms(2) bp bpj ne b by simp
  from r s show "matched E (output_root P) files' j = matched E (output_root P) files j"
    by (simp add: matched_def existing_checksum_def)
qed

lemma write_preserves:
  assumes "codec_ok E" and "checksum m = sha256_hex E b"
    and "files (fst (base_paths E (output_root P) item)) = None"
    and "files (snd (base_paths E (output_root P) item)) = None"
    and "files' = (files(fst (base_paths E (output_root P) item) \<mapsto> b))
                    (snd (base_paths E (output_root P) item) \<mapsto> json_dump E m)"
  shows "matched E (output_root P) files j \<Longrightarrow> matched E (output_root P) files' j"
    and "consistent_for E (output_root P) files j \<Longrightarrow> consistent_for E (output_root P) files' j"
proof -
  have same: "matched E (output_root P) files' j" if "fst (base_paths E (output_root P) j) = fst (base_paths E (output_root P) item)"
  proof -
    from base_paths_shape [of E P item] base_paths_shape [of E P j] that
    have "base_paths E (output_root P) j = base_paths E (output_root P) item" by auto
    with write_matches [OF assms(1,2,5)] show ?thesis by (simp add: matched_def)
  qed
  show "matched E (output_root P) files j \<Longrightarrow> matched E (output_root P) files' j"
    using same write_other(3) [OF _ assms(5), of j] by blast
  show "consistent_for E (output_root P) files j \<Longrightarrow> consistent_for E (output_root P) files' j"
    using same write_other [OF _ assms(5), of j] unfolding consistent_for_def by metis
qed
subsection \<open>One iteration on a consistent store\<close>

lemma process_item_consistent:
  assumes "consistent_for E (output_root P) (fs w) item" and "process_item E P w item = (c, w')"
  shows "(fs w' = fs w \<and> length (run_log w') = length (run_log w) + 1)
     \<or> (c = Continue \<and> run_log w' = run_log w
         \<and> is_allowed_by_robots E (i_canonical_url item) (disallow_paths P)
         \<and> (matched E (output_root P) (fs w) item \<and> fs w' = fs w
            \<or> fs w (fst (base_paths E (output_root P) item)) = None
              \<and> fs w (snd (base_paths E (output_root P) item)) = None
              \<and> (\<exists>b m. checksum m = sha256_hex E b
                   \<and> fs w' = ((fs w)(fst (base_paths E (output_root P) item) \<mapsto> b))
                               (snd (base_paths E (output_root P) item) \<mapsto> json_dump E m))))"
proof (cases "is_failure (item_outcome E P w item)")
  case True
  from process_item_failure [OF True] obtain m where
    "process_item E P w item =
      record_failure (w \<lparr> attempted := attempted w + 1,
                          requests := requests w @ replicate m (i_canonical_url item) \<rparr>)
        item (failure_reason (item_outcome E P w item))"
    by blast
  with assms(2) have "fs w' = fs w \<and> length (run_log w') = length (run_log w) + 1"
    by (cases "i_doc_type item = ''reference''")
       (auto simp: record_failure_reference record_failure_guide)
  then show ?thesis by blast
next
  case False
  then have allowed: "is_allowed_by_robots E (i_canonical_url item) (disallow_paths P)"
    by (auto simp: item_outcome_def is_failure_def split: if_splits)
  obtain raw_path meta_path where paths:
    "artifact_paths E (output_root P) item None = (raw_path, meta_path)"
    by (cases "artifact_paths E (output_root P) item None")
  then have bp: "base_paths E (output_root P) item = (raw_path, meta_path)" by (simp add: base_paths_def)
  let ?w0 = "w \<lparr> attempted := attempted w + 1 \<rparr>"
  show ?thesis
  proof (cases "existing_checksum E (fs w) meta_path raw_path")
    case (Some e)
    with allowed paths assms(2) have "c = Continue \<and> run_log w' = run_log w \<and> fs w' = fs w"
      by (auto simp: process_item_def Let_def)
    moreover from Some bp have "matched E (output_root P) (fs w) item" by (simp add: matched_def)
    ultimately show ?thesis using allowed by blast
  next
    case None
    with bp have "\<not> matched E (output_root P) (fs w) item" by (simp add: matched_def)
    with assms(1) bp have absent: "fs w raw_path = None" "fs w meta_path = None"
      by (simp_all add: consistent_for_def)
    obtain r w1 where f: "fetch_with_retries E (retries P) (i_canonical_url item) ?w0 0 = (r, w1)"
      by (cases "fetch_with_retries E (retries P) (i_canonical_url item) ?w0 0")
    from fetch_with_retries_frame [OF f] obtain k where
      w1: "w1 = ?w0 \<lparr> requests := requests ?w0 @ replicate k (i_canonical_url item) \<rparr>"
      by blast
    have r: "fst (fetch_with_retries E (retries P) (i_canonical_url item) w 0) = r"
      using fetch_with_retries_cong [of ?w0 w E "retries P" "i_canonical_url item" 0] f by simp
    from False allowed paths None r obtain result where
      res: "r = Some result" "\<not> (f_status result < 200 \<or> f_status result \<ge> 300)"
      by (auto simp: item_outcome_def is_failure_def split: option.splits if_splits)
    let ?m = "\<lparr> meta_canonical_url = i_canonical_url item, meta_doc_type = i_doc_type item,
        meta_pine_version = i_pine_version item,
        meta_source_entry_point = source_entry_point item,
        meta_discovered_at = discovered_at item,
        meta_discovery_method = discovery_method item,
        meta_segmentation_strategy = segmentation_strategy item,
        fetched_at = utc_now_iso E (ticks w), http_status = f_status result,
        meta_content_type = content_type result, content_length = decoded_length result,
        meta_content_encoding = content_encoding result,
        checksum = sha256_hex E (raw_bytes result), acquisition_run_id = run_id P \<rparr>"
    from res allowed paths None f w1 absent assms(2)
    have "c = Continue \<and> run_log w' = run_log w
        \<and> fs w' = ((fs w)(raw_path \<mapsto> raw_bytes result))(meta_path \<mapsto> json_dump E ?m)"
      by (auto simp: process_item_def Let_def write_raw_and_meta_def split_beta dom_def)
    moreover have "checksum ?m = sha256_hex E (raw_bytes result)" by simp
    ultimately show ?thesis using allowed absent bp by (metis fst_conv snd_conv)
  qed
qed
subsection \<open>Runs over a consistent store\<close>

lemma process_item_run_log:
  assumes "process_item E P w item = (c, w')"
  shows "length (run_log w) \<le> length (run_log w')"
proof (cases "is_failure (item_outcome E P w item)")
  case True
  from process_item_failure [OF True] obtain m where
    "process_item E P w item =
      record_failure (w \<lparr> attempted := attempted w + 1,
                          requests := requests w @ replicate m (i_canonical_url item) \<rparr>)
        item (failure_reason (item_outcome E P w item))"
    by blast
  with assms show ?thesis
    by (cases "i_doc_type item = ''reference''")
       (auto simp: record_failure_reference record_failure_guide)
next
  case False
  from process_item_no_failure [OF False] assms show ?thesis by auto
qed

lemma acquire_items_run_log:
  "acquire_items E P w items = (c, w') \<Longrightarrow> length (run_log w) \<le> length (run_log w')"
proof (induction items arbitrary: w)
  case Nil
  then show ?case by simp
next
  case (Cons a items)
  obtain c1 w1 where step: "process_item E P w a = (c1, w1)"
    by (cases "process_item E P w a")
  note le = process_item_run_log [OF step]
  show ?case
  proof (cases c1)
    case Continue
    with step Cons.prems have "acquire_items E P w1 items = (c, w')" by simp
    from Cons.IH [OF this] le show ?thesis by simp
  next
    case Break
    with step Cons.prems le show ?thesis by simp
  qed
qed

lemma acquire_items_settles:
  assumes "codec_ok E"
  shows "\<forall>j\<in>set items. consistent_for E (output_root P) (fs w) j \<Longrightarrow>
     acquire_items E P w items = (c, w') \<Longrightarrow>
     length (run_log w') = length (run_log w) \<Longrightarrow>
       c = Continue
     \<and> (\<forall>j. matched E (output_root P) (fs w) j \<longrightarrow> matched E (output_root P) (fs w') j)
     \<and> (\<forall>j. consistent_for E (output_root P) (fs w) j \<longrightarrow> consistent_for E (output_root P) (fs w') j)
     \<and> (\<forall>j\<in>set items. is_allowed_by_robots E (i_canonical_url j) (disallow_paths P)
            \<and> matched E (output_root P) (fs w') j)"
proof (induction items arbitrary: w)
  case Nil
  then show ?case by simp
next
  case (Cons a items)
  obtain c1 w1 where step: "process_item E P w a = (c1, w1)"
    by (cases "process_item E P w a")
  have rest_le: "length (run_log w1) \<le> length (run_log w')"
  proof (cases c1)
    case Continue
    with step Cons.prems(2) have "acquire_items E P w1 items = (c, w')" by simp
    then show ?thesis by (rule acquire_items_run_log)
  next
    case Break
    with step Cons.prems(2) show ?thesis by simp
  qed
  from Cons.prems(1) have ca: "consistent_for E (output_root P) (fs w) a" by simp
  from process_item_consistent [OF ca step] rest_le Cons.prems(3)
  have c1: "c1 = Continue" and log1: "run_log w1 = run_log w"
    and allowed: "is_allowed_by_robots E (i_canonical_url a) (disallow_paths P)"
    and how: "matched E (output_root P) (fs w) a \<and> fs w1 = fs w
            \<or> fs w (fst (base_paths E (output_root P) a)) = None
              \<and> fs w (snd (base_paths E (output_root P) a)) = None
              \<and> (\<exists>b m. checksum m = sha256_hex E b
                   \<and> fs w1 = ((fs w)(fst (base_paths E (output_root P) a) \<mapsto> b))
                               (snd (base_paths E (output_root P) a) \<mapsto> json_dump E m))"
    by auto
  have now: "matched E (output_root P) (fs w1) a"
    and keep: "\<And>j. matched E (output_root P) (fs w) j \<Longrightarrow> matched E (output_root P) (fs w1) j"
    and cons: "\<And>j. consistent_for E (output_root P) (fs w) j \<Longrightarrow> consistent_for E (output_root P) (fs w1) j"
    using how write_matches [OF assms, of _ _ "fs w1" "fs w" P a]
      write_preserves [OF assms, of _ _ "fs w" P a "fs w1"]
    by auto
  from step c1 Cons.prems(2) have rest: "acquire_items E P w1 items = (c, w')" by simp
  from Cons.prems(1) cons have "\<forall>j\<in>set items. consistent_for E (output_root P) (fs w1) j" by simp
  from Cons.IH [OF this rest] Cons.prems(3) log1
  have ih: "c = Continue"
    "\<forall>j. matched E (output_root P) (fs w1) j \<longrightarrow> matched E (output_root P) (fs w') j"
    "\<forall>j. consistent_for E (output_root P) (fs w1) j \<longrightarrow> consistent_for E (output_root P) (fs w') j"
    "\<forall>j\<in>set items. is_allowed_by_robots E (i_canonical_url j) (disallow_paths P)
            \<and> matched E (output_root P) (fs w') j"
    by simp_all
  show ?case
  proof (intro conjI)
    show "c = Continue" by (rule ih(1))
    show "\<forall>j. matched E (output_root P) (fs w) j \<longrightarrow> matched E (output_root P) (fs w') j" using keep ih(2) by blast
    show "\<forall>j. consistent_for E (output_root P) (fs w) j \<longrightarrow> consistent_for E (output_root P) (fs w') j"
      using cons ih(3) by blast
    show "\<forall>j\<in>set (a # items). is_allowed_by_robots E (i_canonical_url j) (disallow_paths P)
            \<and> matched E (output_root P) (fs w') j"
      using allowed now ih(2,4) by auto
  qed
qed

lemma acquire_items_all_skipped:
  "\<forall>j\<in>set items. is_allowed_by_robots E (i_canonical_url j) (disallow_paths P)
        \<and> matched E (output_root P) (fs w) j \<Longrightarrow>
   acquire_items E P w items =
     (Continue, w \<lparr> attempted := attempted w + int (length items),
                     skipped := skipped w + int (length items) \<rparr>)"
proof (induction items arbitrary: w)
  case Nil
  then show ?case by simp
next
  case (Cons a items)
  from Cons.prems obtain e where
    "is_allowed_by_robots E (i_canonical_url a) (disallow_paths P)"
    "existing_checksum E (fs w) (snd (artifact_paths E (output_root P) a None))
           (fst (artifact_paths E (output_root P) a None)) = Some e"
    by (auto simp: matched_def base_paths_def)
  then have step: "process_item E P w a
     = (Continue, w \<lparr> attempted := attempted w + 1, skipped := skipped w + 1 \<rparr>)"
    by (rule process_item_skip)
  let ?w1 = "w \<lparr> attempted := attempted w + 1, skipped := skipped w + 1 \<rparr>"
  from Cons.prems have "\<forall>j\<in>set items.
      is_allowed_by_robots E (i_canonical_url j) (disallow_paths P) \<and> matched E (output_root P) (fs ?w1) j"
    by simp
  from Cons.IH [OF this] step show ?case by (simp add: algebra_simps)
qed

lemma process_item_matched_frame:
  assumes "matched E (output_root P) (fs w) item" and "process_item E P w item = (c, w')"
  shows "fs w' = fs w \<and> requests w' = requests w \<and> ticks w' = ticks w"
proof (cases "is_allowed_by_robots E (i_canonical_url item) (disallow_paths P)")
  case True
  from assms(1) obtain e where
    "existing_checksum E (fs w) (snd (artifact_paths E (output_root P) item None))
           (fst (artifact_paths E (output_root P) item None)) = Some e"
    by (auto simp: matched_def base_paths_def)
  from process_item_skip [OF True this] assms(2) show ?thesis by auto
next
  case False
  then have "process_item E P w item
      = record_failure (w \<lparr> attempted := attempted w + 1 \<rparr>) item ''robots_disallow''"
    by (simp add: process_item_def Let_def)
  with assms(2) show ?thesis
    by (cases "i_doc_type item = ''reference''")
       (auto simp: record_failure_reference record_failure_guide)
qed

lemma acquire_items_matched_frame:
  "\<forall>j\<in>set items. matched E (output_root P) (fs w) j \<Longrightarrow>
   acquire_items E P w items = (c, w') \<Longrightarrow>
   fs w' = fs w \<and> requests w' = requests w \<and> ticks w' = ticks w"
proof (induction items arbitrary: w)
  case Nil
  then show ?case by simp
next
  case (Cons a items)
  obtain c1 w1 where step: "process_item E P w a = (c1, w1)"
    by (cases "process_item E P w a")
  from Cons.prems(1) have "matched E (output_root P) (fs w) a" by simp
  note frame = process_item_matched_frame [OF this step]
  show ?case
  proof (cases c1)
    case Break
    with step Cons.prems(2) frame show ?thesis by simp
  next
    case Continue
    with step Cons.prems(2) have rest: "acquire_items E P w1 items = (c, w')" by simp
    from Cons.prems(1) frame have "\<forall>j\<in>set items. matched E (output_root P) (fs w1) j"
      by simp
    from Cons.IH [OF this rest] frame show ?thesis by simp
  qed
qed

lemma fetch_robots_txt_frame:
  "snd (fetch_robots_txt E host w) = w \<lparr> requests := requests w @ [host @ ''/robots.txt''] \<rparr>"
  by (simp add: fetch_robots_txt_def Let_def split: fetch_outcome.splits)

lemma acquire_inventory_cases:
  obtains (raised) e where "fst (fetch_robots_txt E HOST w) = Inl e"
      "acquire_inventory E A w inventory
         = (Some e, w \<lparr> requests := requests w @ [HOST @ ''/robots.txt''] \<rparr>)"
  | (nodir) robots_txt where "fst (fetch_robots_txt E HOST w) = Inr robots_txt"
      "os_path_dirname (arg_run_log_path A) = []"
      "acquire_inventory E A w inventory
         = (Some (FileNotFoundError []),
            w \<lparr> requests := requests w @ [HOST @ ''/robots.txt''] \<rparr>)"
  | (loop) robots_txt where "fst (fetch_robots_txt E HOST w) = Inr robots_txt"
      "os_path_dirname (arg_run_log_path A) \<noteq> []"
      "acquire_inventory E A w inventory
         = (None,
            snd (acquire_items E (run_params A robots_txt)
              (w \<lparr> requests := requests w @ [HOST @ ''/robots.txt''], run_log := [],
                   attempted := 0, written := 0, skipped := 0, failed_guide := 0,
                   failed_reference := 0 \<rparr>) inventory))"
proof -
  obtain r v where f: "fetch_robots_txt E HOST w = (r, v)"
    by (cases "fetch_robots_txt E HOST w")
  with fetch_robots_txt_frame [of E HOST w]
  have v: "v = w \<lparr> requests := requests w @ [HOST @ ''/robots.txt''] \<rparr>" by simp
  show ?thesis
  proof (cases r)
    case (Inl e)
    with f v raised [of e] show ?thesis by (simp add: acquire_inventory_def)
  next
    case (Inr robots_txt)
    show ?thesis
    proof (cases "os_path_dirname (arg_run_log_path A) = []")
      case True
      with Inr f v nodir [of robots_txt] show ?thesis by (simp add: acquire_inventory_def)
    next
      case False
      with Inr f v loop [of robots_txt] show ?thesis by (simp add: acquire_inventory_def)
    qed
  qed
qed

subsection \<open>Evaluating the scenarios\<close>

lemma char_eq_char_of: "(c = char_of (n :: nat)) = (take_bit 8 n = (of_char c :: nat))"
  using char_of_eq_iff [of n c] by auto

lemma parse_demo_robots: "parse_robots_disallow demo_robots = [''/accounts/'']"
  by (simp add: parse_robots_disallow_def demo_robots_def py_splitlines_def is_linebreak_def
      py_strip_def py_isspace_def py_lower_def after_colon_def partition_at_def Let_def
      char_of_eq_iff char_eq_char_of)

lemma parse_strict_robots: "parse_robots_disallow strict_robots = [''/a'']"
  by (simp add: parse_robots_disallow_def strict_robots_def py_splitlines_def is_linebreak_def
      py_strip_def py_isspace_def py_lower_def after_colon_def partition_at_def Let_def
      char_of_eq_iff char_eq_char_of)

lemma run_params_demo: "run_params demo_args demo_robots = demo_params"
  by (simp add: run_params_def parse_demo_robots)
     (simp add: demo_args_def demo_params_def os_path_basename_def)

lemma run_params_strict:
  "run_params demo_args strict_robots = demo_params \<lparr> disallow_paths := [''/a''] \<rparr>"
  by (simp add: run_params_def parse_strict_robots)
     (simp add: demo_args_def demo_params_def os_path_basename_def)

lemma acquire_inventory_demo:
  "acquire_inventory (demo_env (with_robots body net) clock) demo_args w inventory =
     (None,
      snd (acquire_items (demo_env (with_robots body net) clock) (run_params demo_args body)
        (w \<lparr> requests := requests w @ [''https://www.tradingview.com/robots.txt''],
             run_log := [], attempted := 0, written := 0, skipped := 0, failed_guide := 0,
             failed_reference := 0 \<rparr>) inventory))"
proof -
  have "fetch_robots_txt (demo_env (with_robots body net) clock) HOST w
      = (Inr body, w \<lparr> requests := requests w @ [''https://www.tradingview.com/robots.txt''] \<rparr>)"
    by (simp add: fetch_robots_txt_def HOST_def demo_env_def with_robots_def page_def Let_def)
  moreover have "os_path_dirname (arg_run_log_path demo_args) \<noteq> []"
    by (simp add: demo_args_def os_path_dirname_def rstrip_char_def)
  ultimately show ?thesis by (simp add: acquire_inventory_def)
qed

subsection \<open>C7: items with a matching artifact are skipped\<close>

text \<open>
  C7, as stated, fails on two inputs. When \<^verbatim>\<open>robots.txt\<close> disallows the path of an item
  whose artifact and sidecar match, the run logs the item as a failure and \<open>skipped\<close>
  stays 0. And when the store holds a page without its sidecar, the first run writes a
  copy under a timestamp suffix, and a second run a minute later fetches the unchanged
  page again and writes another copy, which the store did not hold after the first run.
\<close>

theorem rerun_skip_counterexample:
  "existing_checksum (demo_env (with_robots strict_robots (serve ''<p>ok</p>'')) minute_later)
       (fs stored_world) (raw_a @ ''.meta.json'') raw_a = Some ''sha-<p>ok</p>''
   \<and> artifact_paths (demo_env (with_robots strict_robots (serve ''<p>ok</p>'')) minute_later)
        (arg_output_root demo_args) (demo_item ''guide'' url_a) None
       = (raw_a, raw_a @ ''.meta.json'')
   \<and> fst (acquire_inventory
        (demo_env (with_robots strict_robots (serve ''<p>ok</p>'')) minute_later) demo_args
        stored_world [demo_item ''guide'' url_a]) = None
   \<and> skipped (snd (acquire_inventory
        (demo_env (with_robots strict_robots (serve ''<p>ok</p>'')) minute_later) demo_args
        stored_world [demo_item ''guide'' url_a])) = 0
   \<and> failed_guide (snd (acquire_inventory
        (demo_env (with_robots strict_robots (serve ''<p>ok</p>'')) minute_later) demo_args
        stored_world [demo_item ''guide'' url_a])) = 1
   \<and> fs (snd (acquire_inventory
        (demo_env (with_robots demo_robots (serve ''<p>ok</p>'')) minute_later) demo_args
        orphan_world [demo_item ''guide'' url_a])) raw_a_2 = None
   \<and> fs (snd (acquire_inventory
        (demo_env (with_robots demo_robots (serve ''<p>ok</p>'')) minute_later) demo_args
        (snd (acquire_inventory
           (demo_env (with_robots demo_robots (serve ''<p>ok</p>'')) minute_later) demo_args
           orphan_world [demo_item ''guide'' url_a]))
        [demo_item ''guide'' url_a])) raw_a_2 = Some ''<p>ok</p>''
   \<and> written (snd (acquire_inventory
        (demo_env (with_robots demo_robots (serve ''<p>ok</p>'')) minute_later) demo_args
        (snd (acquire_inventory
           (demo_env (with_robots demo_robots (serve ''<p>ok</p>'')) minute_later) demo_args
           orphan_world [demo_item ''guide'' url_a]))
        [demo_item ''guide'' url_a])) = 1"
  by (simp only: acquire_inventory_demo run_params_demo run_params_strict fst_conv snd_conv)
     (simp add: process_item_def demo_env_def demo_params_def demo_args_def
      record_failure_def empty_world_def orphan_world_def stored_world_def
      demo_item_def raw_a_def raw_a_2_def serve_def with_robots_def minute_later_def
      url_a_def page_def
      is_allowed_by_robots_def artifact_paths_def os_path_join_def endswith_def
      suffix_to_prefix url_hash_def existing_checksum_def write_raw_and_meta_def
      fetch_with_retries.simps Let_def)

text \<open>
  C7 (amended). (1) An item that \<^verbatim>\<open>robots.txt\<close> allows and whose artifact and sidecar
  exist with a matching checksum when its iteration starts is skipped: the iteration
  changes nothing but \<open>attempted\<close> and \<open>skipped\<close>, each by one, so nothing is fetched and
  nothing is written. (2) The loop over an inventory all of whose items are such leaves
  the store, the request trace and the clock as they were and counts every item as
  skipped. (3) Suppose the codec reads back the checksum it wrote and digests are
  non-empty, the store is consistent for every item of the inventory (neither file of
  the item, or a matching pair), and a first run returns and logs no failure. Then a
  second run with the same arguments and inventory, whatever the network and the clock
  then do, requests \<^verbatim>\<open>robots.txt\<close> and nothing else, reads no clock and leaves the store
  identical; and if its request for \<^verbatim>\<open>robots.txt\<close> returns a text that allows every item
  of the inventory, it returns, counts every item as skipped, writes nothing and logs
  no failure.
\<close>

theorem rerun_skips_matched:
  fixes E :: env and P :: params and A :: run_args and w w0 :: world
    and item :: InventoryItem and inventory :: "InventoryItem list"
    and net :: "nat \<Rightarrow> string \<Rightarrow> fetch_outcome" and clock now :: "nat \<Rightarrow> string"
    and body :: string
  defines "w1 \<equiv> snd (acquire_inventory E A w0 inventory)"
  defines "E2 \<equiv> E \<lparr> fetch_bytes := net, strftime_now := clock, utc_now_iso := now \<rparr>"
  defines "w2 \<equiv> snd (acquire_inventory E2 A w1 inventory)"
  shows
    "(is_allowed_by_robots E (i_canonical_url item) (disallow_paths P)
        \<and> matched E (output_root P) (fs w) item \<longrightarrow>
          process_item E P w item
            = (Continue, w \<lparr> attempted := attempted w + 1, skipped := skipped w + 1 \<rparr>))
   \<and> ((\<forall>j\<in>set inventory. is_allowed_by_robots E (i_canonical_url j) (disallow_paths P)
          \<and> matched E (output_root P) (fs w) j) \<longrightarrow>
          acquire_items E P w inventory
            = (Continue, w \<lparr> attempted := attempted w + int (length inventory),
                             skipped := skipped w + int (length inventory) \<rparr>))
   \<and> ((\<forall>m. json_checksum E (json_dump E m) = Some (checksum m))
        \<and> (\<forall>b. sha256_hex E b \<noteq> [])
        \<and> (\<forall>j\<in>set inventory. consistent_for E (arg_output_root A) (fs w0) j)
        \<and> fst (acquire_inventory E A w0 inventory) = None
        \<and> run_log w1 = [] \<longrightarrow>
          fs w2 = fs w1
        \<and> requests w2 = requests w1 @ [''https://www.tradingview.com/robots.txt'']
        \<and> ticks w2 = ticks w1
        \<and> (fst (fetch_robots_txt E2 HOST w1) = Inr body
             \<and> (\<forall>j\<in>set inventory.
                   is_allowed_by_robots E (i_canonical_url j) (parse_robots_disallow body)) \<longrightarrow>
               fst (acquire_inventory E2 A w1 inventory) = None
             \<and> skipped w2 = int (length inventory) \<and> written w2 = 0
             \<and> attempted w2 = int (length inventory) \<and> run_log w2 = []
             \<and> failed_guide w2 = 0 \<and> failed_reference w2 = 0))"
proof (intro conjI impI)
  assume h: "is_allowed_by_robots E (i_canonical_url item) (disallow_paths P)
        \<and> matched E (output_root P) (fs w) item"
  then obtain e where
    "existing_checksum E (fs w) (snd (artifact_paths E (output_root P) item None))
           (fst (artifact_paths E (output_root P) item None)) = Some e"
    by (auto simp: matched_def base_paths_def)
  with h show "process_item E P w item
      = (Continue, w \<lparr> attempted := attempted w + 1, skipped := skipped w + 1 \<rparr>)"
    by (simp add: process_item_skip)
next
  assume "\<forall>j\<in>set inventory. is_allowed_by_robots E (i_canonical_url j) (disallow_paths P)
          \<and> matched E (output_root P) (fs w) j"
  then show "acquire_items E P w inventory
            = (Continue, w \<lparr> attempted := attempted w + int (length inventory),
                             skipped := skipped w + int (length inventory) \<rparr>)"
    by (rule acquire_items_all_skipped)
next
  assume h: "(\<forall>m. json_checksum E (json_dump E m) = Some (checksum m))
        \<and> (\<forall>b. sha256_hex E b \<noteq> [])
        \<and> (\<forall>j\<in>set inventory. consistent_for E (arg_output_root A) (fs w0) j)
        \<and> fst (acquire_inventory E A w0 inventory) = None
        \<and> run_log w1 = []"
  then have codec: "codec_ok E" by (simp add: codec_ok_def)
  let ?robots = "HOST @ ''/robots.txt''"
  let ?reset = "\<lambda>v :: world. v \<lparr> requests := requests v @ [?robots], run_log := [],
      attempted := 0, written := 0, skipped := 0, failed_guide := 0, failed_reference := 0 \<rparr>"
  have root: "output_root (run_params A t) = arg_output_root A" for t
    by (simp add: run_params_def)
  have dis: "disallow_paths (run_params A t) = parse_robots_disallow t" for t
    by (simp add: run_params_def)
  \<comment> \<open>the first run\<close>
  from h obtain t1 where dir: "os_path_dirname (arg_run_log_path A) \<noteq> []"
    and w1: "w1 = snd (acquire_items E (run_params A t1) (?reset w0) inventory)"
    by (cases rule: acquire_inventory_cases [of E w0 A inventory]) (auto simp: w1_def)
  obtain c where run1: "acquire_items E (run_params A t1) (?reset w0) inventory = (c, w1)"
    unfolding w1 by (metis prod.collapse)
  from h have cons: "\<forall>j\<in>set inventory.
      consistent_for E (output_root (run_params A t1)) (fs (?reset w0)) j"
    by (simp add: root)
  from h have "length (run_log w1) = length (run_log (?reset w0))" by simp
  from acquire_items_settles [OF codec cons run1 this]
  have m1: "\<forall>j\<in>set inventory. matched E (arg_output_root A) (fs w1) j"
    by (simp add: root)
  \<comment> \<open>the second run\<close>
  have m2: "\<forall>j\<in>set inventory.
      matched E2 (output_root (run_params A t)) (fs (?reset w1)) j" for t
    using m1 unfolding E2_def by (simp add: pure_parts root)
  have frame: "fs w2 = fs w1 \<and> requests w2 = requests w1 @ [?robots] \<and> ticks w2 = ticks w1"
  proof (cases rule: acquire_inventory_cases [of E2 w1 A inventory])
    case (raised e)
    then show ?thesis by (simp add: w2_def)
  next
    case (nodir t2)
    then show ?thesis by (simp add: w2_def)
  next
    case (loop t2)
    obtain c2 where run2:
      "acquire_items E2 (run_params A t2) (?reset w1) inventory = (c2, w2)"
      unfolding w2_def loop(3) by (metis prod.collapse snd_conv)
    from acquire_items_matched_frame [OF m2 run2] show ?thesis by simp
  qed
  from frame show "fs w2 = fs w1" by simp
  from frame show "requests w2 = requests w1 @ [''https://www.tradingview.com/robots.txt'']"
    by (simp add: HOST_def)
  from frame show "ticks w2 = ticks w1" by simp
  {
    assume g: "fst (fetch_robots_txt E2 HOST w1) = Inr body
             \<and> (\<forall>j\<in>set inventory.
                   is_allowed_by_robots E (i_canonical_url j) (parse_robots_disallow body))"
    from g dir have run2: "acquire_inventory E2 A w1 inventory
        = (None, snd (acquire_items E2 (run_params A body) (?reset w1) inventory))"
      by (cases rule: acquire_inventory_cases [of E2 w1 A inventory]) auto
    from g m2 [of body] have "\<forall>j\<in>set inventory.
        is_allowed_by_robots E2 (i_canonical_url j) (disallow_paths (run_params A body))
        \<and> matched E2 (output_root (run_params A body)) (fs (?reset w1)) j"
      unfolding E2_def by (simp add: pure_parts dis)
    from acquire_items_all_skipped [OF this] run2
    have w2: "w2 = (?reset w1) \<lparr> attempted := int (length inventory),
        skipped := int (length inventory) \<rparr>"
      by (simp add: w2_def)
    from run2 show "fst (acquire_inventory E2 A w1 inventory) = None" by simp
    from w2 show "skipped w2 = int (length inventory)" "written w2 = 0"
      "attempted w2 = int (length inventory)" "run_log w2 = []"
      "failed_guide w2 = 0" "failed_reference w2 = 0"
      by simp_all
  }
qed

text \<open>
  A first run on the empty store fetches \<^verbatim>\<open>robots.txt\<close> and the page of \<open>url_a\<close> and
  writes the page; the second run, with the network down for the reference page and the
  clock elsewhere, requests \<^verbatim>\<open>robots.txt\<close> only, skips the page and leaves the store as
  it was. In the store that holds the page, its iteration only counts.
\<close>

theorem rerun_skips_matched_witness:
  "process_item (demo_env (with_robots demo_robots (serve ''<p>ok</p>'')) minute_later)
      demo_params stored_world (demo_item ''guide'' url_a)
     = (Continue, stored_world \<lparr> attempted := 1, skipped := 1 \<rparr>)
   \<and> written (snd (acquire_inventory
        (demo_env (with_robots demo_robots (serve ''<p>ok</p>'')) minute_later) demo_args
        empty_world [demo_item ''guide'' url_a])) = 1
   \<and> fs (snd (acquire_inventory
           (demo_env (with_robots demo_robots (serve ''<p>ok</p>'')) minute_later
              \<lparr> fetch_bytes := with_robots demo_robots ref_down,
                strftime_now := at_second ''t'', utc_now_iso := at_second ''u'' \<rparr>)
           demo_args
           (snd (acquire_inventory
              (demo_env (with_robots demo_robots (serve ''<p>ok</p>'')) minute_later)
              demo_args empty_world [demo_item ''guide'' url_a]))
           [demo_item ''guide'' url_a]))
       = [raw_a \<mapsto> ''<p>ok</p>'', raw_a @ ''.meta.json'' \<mapsto> ''sha-<p>ok</p>'']
   \<and> requests (snd (acquire_inventory
           (demo_env (with_robots demo_robots (serve ''<p>ok</p>'')) minute_later
              \<lparr> fetch_bytes := with_robots demo_robots ref_down,
                strftime_now := at_second ''t'', utc_now_iso := at_second ''u'' \<rparr>)
           demo_args
           (snd (acquire_inventory
              (demo_env (with_robots demo_robots (serve ''<p>ok</p>'')) minute_later)
              demo_args empty_world [demo_item ''guide'' url_a]))
           [demo_item ''guide'' url_a]))
       = [''https://www.tradingview.com/robots.txt'', url_a,
          ''https://www.tradingview.com/robots.txt'']
   \<and> skipped (snd (acquire_inventory
           (demo_env (with_robots demo_robots (serve ''<p>ok</p>'')) minute_later
              \<lparr> fetch_bytes := with_robots demo_robots ref_down,
                strftime_now := at_second ''t'', utc_now_iso := at_second ''u'' \<rparr>)
           demo_args
           (snd (acquire_inventory
              (demo_env (with_robots demo_robots (serve ''<p>ok</p>'')) minute_later)
              demo_args empty_world [demo_item ''guide'' url_a]))
           [demo_item ''guide'' url_a])) = 1"
proof -
  let ?E = "demo_env (with_robots demo_robots (serve ''<p>ok</p>'')) minute_later"
  let ?E2 = "?E \<lparr> fetch_bytes := with_robots demo_robots ref_down,
      strftime_now := at_second ''t'', utc_now_iso := at_second ''u'' \<rparr>"
  let ?a = "demo_item ''guide'' url_a"
  let ?w1 = "\<lparr> fs = [raw_a \<mapsto> ''<p>ok</p>'', raw_a @ ''.meta.json'' \<mapsto> ''sha-<p>ok</p>''],
          run_log = [], requests = [''https://www.tradingview.com/robots.txt'', url_a],
          ticks = 1, attempted = 1, written = 1,
          skipped = 0, failed_guide = 0, failed_reference = 0 \<rparr>"
  have run1: "acquire_inventory ?E demo_args empty_world [?a] = (None, ?w1)"
    by (simp only: acquire_inventory_demo run_params_demo)
       (simp add: process_item_def demo_env_def demo_params_def
        empty_world_def demo_item_def raw_a_def serve_def with_robots_def url_a_def page_def
        is_allowed_by_robots_def artifact_paths_def os_path_join_def endswith_def
        suffix_to_prefix url_hash_def existing_checksum_def write_raw_and_meta_def
        fetch_with_retries.simps Let_def)
  have allowed: "is_allowed_by_robots ?E (i_canonical_url ?a) (disallow_paths demo_params)"
    by (simp add: is_allowed_by_robots_def demo_env_def demo_params_def demo_item_def
        url_a_def)
  have allowed2: "is_allowed_by_robots ?E (i_canonical_url ?a)
      (parse_robots_disallow demo_robots)"
    by (simp add: parse_demo_robots)
       (simp add: is_allowed_by_robots_def demo_env_def demo_item_def url_a_def)
  have bp: "base_paths ?E ''raw'' ?a = (raw_a, raw_a @ ''.meta.json'')"
    by (simp add: base_paths_def artifact_paths_def demo_env_def
        demo_item_def url_a_def raw_a_def os_path_join_def endswith_def suffix_to_prefix
        url_hash_def)
  have roots: "output_root demo_params = ''raw''" "arg_output_root demo_args = ''raw''"
    by (simp_all add: demo_params_def demo_args_def)
  have m: "matched ?E ''raw'' (fs stored_world) ?a"
    by (simp add: matched_def bp)
       (simp add: existing_checksum_def stored_world_def raw_a_def demo_env_def)
  have c: "consistent_for ?E ''raw'' (fs empty_world) ?a"
    by (simp add: consistent_for_def empty_world_def)
  have codec: "(\<forall>m. json_checksum ?E (json_dump ?E m) = Some (checksum m))
      \<and> (\<forall>b. sha256_hex ?E b \<noteq> [])"
    by (simp add: demo_env_def)
  have robots2: "fst (fetch_robots_txt ?E2 HOST ?w1) = Inr demo_robots"
    by (simp add: fetch_robots_txt_def HOST_def demo_env_def with_robots_def page_def Let_def)
  from rerun_skips_matched [where E = ?E and item = ?a and P = demo_params
      and w = stored_world and inventory = "[?a]" and ?w0.0 = empty_world and A = demo_args
      and net = "with_robots demo_robots ref_down" and clock = "at_second ''t''"
      and now = "at_second ''u''" and body = demo_robots]
    allowed allowed2 m c codec run1 robots2 roots
  show ?thesis by (simp add: stored_world_def empty_world_def)
qed

subsection \<open>C10: existing files and timestamp suffixes\<close>

lemma process_item_keeps_files:
  assumes "process_item E P w item = (c, w')"
    and "fs w (fst (artifact_paths E (output_root P) item (Some (strftime_now E (ticks w)))))
           = None"
    and "fs w (snd (artifact_paths E (output_root P) item (Some (strftime_now E (ticks w)))))
           = None"
    and "fs w p = Some v"
  shows "fs w' p = Some v"
proof (cases "is_failure (item_outcome E P w item)")
  case True
  from process_item_failure [OF True] obtain m where
    "process_item E P w item =
      record_failure (w \<lparr> attempted := attempted w + 1,
                          requests := requests w @ replicate m (i_canonical_url item) \<rparr>)
        item (failure_reason (item_outcome E P w item))"
    by blast
  with assms(1,4) show ?thesis
    by (cases "i_doc_type item = ''reference''")
       (auto simp: record_failure_reference record_failure_guide)
next
  case False
  then have allowed: "is_allowed_by_robots E (i_canonical_url item) (disallow_paths P)"
    by (auto simp: item_outcome_def is_failure_def split: if_splits)
  obtain raw_path meta_path where paths:
    "artifact_paths E (output_root P) item None = (raw_path, meta_path)"
    by (cases "artifact_paths E (output_root P) item None")
  let ?w0 = "w \<lparr> attempted := attempted w + 1 \<rparr>"
  show ?thesis
  proof (cases "existing_checksum E (fs w) meta_path raw_path")
    case (Some e)
    with allowed paths assms(1,4) show ?thesis
      by (auto simp: process_item_def Let_def)
  next
    case None
    obtain r w1 where f: "fetch_with_retries E (retries P) (i_canonical_url item) ?w0 0 = (r, w1)"
      by (cases "fetch_with_retries E (retries P) (i_canonical_url item) ?w0 0")
    from fetch_with_retries_frame [OF f] obtain k where
      w1: "w1 = ?w0 \<lparr> requests := requests ?w0 @ replicate k (i_canonical_url item) \<rparr>"
      by blast
    have r: "fst (fetch_with_retries E (retries P) (i_canonical_url item) w 0) = r"
      using fetch_with_retries_cong [of ?w0 w E "retries P" "i_canonical_url item" 0] f by simp
    from False allowed paths None r obtain result where
      res: "r = Some result" "\<not> (f_status result < 200 \<or> f_status result \<ge> 300)"
      by (auto simp: item_outcome_def is_failure_def split: option.splits if_splits)
    from res allowed paths None f w1 assms show ?thesis
      by (auto simp: process_item_def Let_def write_raw_and_meta_def split_beta dom_def
          split: if_splits)
  qed
qed

text \<open>
  C10. The store holds a page of \<open>url_a\<close> without its sidecar, the inventory lists
  \<open>url_a\<close> twice, and both iterations read the clock within the same second. The first
  iteration writes the fetched page and its sidecar under the timestamp suffix; the
  second computes the same suffixed paths, which now exist, and overwrites both files
  with what it fetched.
\<close>

theorem suffixed_artifact_overwritten:
  "fs (snd (acquire_inventory
         (demo_env (with_robots demo_robots serve_versions) (at_second ''20260109T135601Z''))
         demo_args orphan_world [demo_item ''guide'' url_a])) raw_a_1 = Some ''<p>v1</p>''
   \<and> fs (snd (acquire_inventory
         (demo_env (with_robots demo_robots serve_versions) (at_second ''20260109T135601Z''))
         demo_args orphan_world [demo_item ''guide'' url_a])) (raw_a_1 @ ''.meta.json'')
       = Some ''sha-<p>v1</p>''
   \<and> fs (snd (acquire_inventory
         (demo_env (with_robots demo_robots serve_versions) (at_second ''20260109T135601Z''))
         demo_args orphan_world [demo_item ''guide'' url_a, demo_item ''guide'' url_a])) raw_a_1
       = Some ''<p>v2</p>''
   \<and> fs (snd (acquire_inventory
         (demo_env (with_robots demo_robots serve_versions) (at_second ''20260109T135601Z''))
         demo_args orphan_world [demo_item ''guide'' url_a, demo_item ''guide'' url_a]))
         (raw_a_1 @ ''.meta.json'') = Some ''sha-<p>v2</p>''
   \<and> written (snd (acquire_inventory
         (demo_env (with_robots demo_robots serve_versions) (at_second ''20260109T135601Z''))
         demo_args orphan_world [demo_item ''guide'' url_a, demo_item ''guide'' url_a])) = 2
   \<and> fst (acquire_inventory
         (demo_env (with_robots demo_robots serve_versions) (at_second ''20260109T135601Z''))
         demo_args orphan_world [demo_item ''guide'' url_a, demo_item ''guide'' url_a]) = None"
  by (simp only: acquire_inventory_demo run_params_demo fst_conv snd_conv)
     (simp add: process_item_def demo_env_def demo_params_def
      empty_world_def orphan_world_def demo_item_def raw_a_def raw_a_1_def serve_versions_def
      with_robots_def at_second_def url_a_def page_def is_allowed_by_robots_def
      artifact_paths_def os_path_join_def endswith_def suffix_to_prefix url_hash_def
      existing_checksum_def write_raw_and_meta_def fetch_with_retries.simps Let_def)

end
